theory Spec2Isabelle
  imports Complex_Main "HOL-Library.Log_Nat" "HOL-Library.Signed_Division"
begin

section \<open>The feereport plugin: data model\<close>

text \<open>
  The plugin reads three JSON answers of the node daemon and builds one report. The answers
  are modelled as records holding the fields the code reads. A field the code tests for
  presence (\<^verbatim>\<open>"funding_output" in channel\<close>, \<^verbatim>\<open>"resolved_time" in fwd\<close>) is an option;
  the other fields are taken to be present with the type the daemon gives them. Python's
  integers are unbounded, so they are \<^typ>\<open>int\<close>. A Python float is a finite binary64
  number, represented by its exact value as a \<^typ>\<open>rat\<close>; the sign of a zero is not
  represented (the quotients formed by the plugin are zero only for a zero dividend, where
  Python gives a positive zero).
\<close>

datatype error = RpcError | IndexError | OverflowError | ZeroDivisionError

record channel =
  short_channel_id :: string
  funding_txid :: string
  funding_output :: "int option"

record detail =
  source :: string
  base_fee_millisatoshi :: int
  fee_per_millionth :: int

record forward =
  fee :: int
  status :: string
  resolved_time :: "rat option"

record channel_fee =
  chan_point :: string
  base_fee_msat :: string
  fee_per_mil :: string
  fee_rate :: string

record report =
  channel_fees :: "channel_fee list"
  day_fee_sum :: string
  week_fee_sum :: string
  month_fee_sum :: string

text \<open>
  The RPC client: each call either fails (the exception propagates out of \<^verbatim>\<open>feereport\<close>)
  or returns the list found under the key the code reads.
\<close>

record rpc =
  listfunds :: "error + channel list"
  listchannels :: "string \<Rightarrow> error + detail list"
  listforwards :: "error + forward list"

text \<open>
  The clock: \<^verbatim>\<open>datetime.now()\<close> is a naive local wall-clock time, here a count of
  microseconds, from which a \<^verbatim>\<open>timedelta\<close> is subtracted exactly; \<^verbatim>\<open>.timestamp()\<close>
  converts a wall-clock time to epoch seconds through the local time zone, which is a
  parameter of the model.
\<close>

record clock =
  now :: int
  timestamp :: "int \<Rightarrow> rat"

definition timedelta_hours :: "int \<Rightarrow> int" where
  "timedelta_hours h = h * 3600 * 1000000"

definition timedelta_days :: "int \<Rightarrow> int" where
  "timedelta_days d = d * 86400 * 1000000"

section \<open>Python primitives used by the plugin\<close>

subsection \<open>\<^verbatim>\<open>str\<close> of an integer\<close>

definition digit_char :: "nat \<Rightarrow> char" where
  "digit_char d = ''0123456789'' ! d"

fun str_nat :: "nat \<Rightarrow> string" where
  "str_nat n = (if n < 10 then [digit_char n] else str_nat (n div 10) @ [digit_char (n mod 10)])"

declare str_nat.simps [simp del]

definition str_int :: "int \<Rightarrow> string" where
  "str_int i = (if i < 0 then CHR ''-'' # str_nat (nat (- i)) else str_nat (nat i))"

subsection \<open>\<^verbatim>\<open>str.split\<close> with a separator, and subscripting\<close>

fun split_on :: "char \<Rightarrow> string \<Rightarrow> string list" where
  "split_on c [] = [[]]"
| "split_on c (x # xs) =
     (if x = c then [] # split_on c xs
      else (case split_on c xs of p # ps \<Rightarrow> (x # p) # ps | [] \<Rightarrow> [[x]]))"

definition subscript :: "'a list \<Rightarrow> nat \<Rightarrow> error + 'a" where
  "subscript xs i = (if i < length xs then Inr (xs ! i) else Inl IndexError)"

subsection \<open>Floats: true division, \<^verbatim>\<open>int\<close>, and \<^verbatim>\<open>%.8f\<close>\<close>

text \<open>Rounding a rational to the nearest integer, ties to the even one.\<close>

definition round_half_even :: "rat \<Rightarrow> int" where
  "round_half_even x =
     (let f = \<lfloor>x\<rfloor>; r = x - of_int f
      in if r < 1 / 2 then f else if 1 / 2 < r then f + 1 else if even f then f else f + 1)"

text \<open>For \<open>0 < x\<close>, the \<open>k\<close> with \<open>2 ^ k \<le> x < 2 ^ (k + 1)\<close>.\<close>

definition floor_log2 :: "rat \<Rightarrow> int" where
  "floor_log2 x =
     (let k = bitlen (fst (quotient_of x)) - bitlen (snd (quotient_of x))
      in if power_int 2 k \<le> x then k else k - 1)"

text \<open>
  The binary64 number nearest to a rational, before the range check: the significand has
  53 bits, the exponent of its last bit is at least \<open>-1074\<close>, and ties go to the even
  significand.
\<close>

definition double_exponent :: "rat \<Rightarrow> int" where
  "double_exponent x = max (floor_log2 \<bar>x\<bar> - 52) (- 1074)"

definition round_double :: "rat \<Rightarrow> rat" where
  "round_double x =
     (if x = 0 then 0
      else let e = double_exponent x;
               m = round_half_even (\<bar>x\<bar> / power_int 2 e)
           in sgn x * of_int m * power_int 2 e)"

text \<open>
  Python 3's \<^verbatim>\<open>a / b\<close> on integers: the correctly rounded quotient, or an exception.
\<close>

definition true_div :: "int \<Rightarrow> int \<Rightarrow> error + rat" where
  "true_div a b =
     (if b = 0 then Inl ZeroDivisionError
      else let x = round_double (of_int a / of_int b)
           in if 2 ^ 1024 \<le> \<bar>x\<bar> then Inl OverflowError else Inr x)"

text \<open>\<^verbatim>\<open>int(x)\<close> of a float truncates towards zero.\<close>

definition int_of_float :: "rat \<Rightarrow> int" where
  "int_of_float x = (if 0 \<le> x then \<lfloor>x\<rfloor> else - \<lfloor>- x\<rfloor>)"

text \<open>A number below \<open>10 ^ w\<close> in exactly \<open>w\<close> digits.\<close>

primrec digits_fixed :: "nat \<Rightarrow> nat \<Rightarrow> string" where
  "digits_fixed 0 n = []"
| "digits_fixed (Suc w) n = digits_fixed w (n div 10) @ [digit_char (n mod 10)]"

text \<open>
  \<^verbatim>\<open>"%.8f" % x\<close>: the exact value of the float, correctly rounded to 8 decimals.
\<close>

definition format_8f :: "rat \<Rightarrow> string" where
  "format_8f x =
     (let k = nat (round_half_even (\<bar>x\<bar> * 100000000))
      in (if x < 0 then ''-'' else '''') @ str_nat (k div 100000000) @ ''.''
           @ digits_fixed 8 (k mod 100000000))"

section \<open>The report\<close>

subsection \<open>Fee policies of the channels (lines 29 to 51)\<close>

text \<open>Lines 36 to 42: the output index of the funding transaction, as a string.\<close>

definition funding_output_str :: "channel \<Rightarrow> error + string" where
  "funding_output_str channel =
     (case funding_output channel of
        Some n \<Rightarrow> Inr (str_int n)
      | None \<Rightarrow> subscript (split_on CHR ''x'' (short_channel_id channel)) 2)"

text \<open>Lines 44 to 49: the record appended for a channel and its policy entry.\<close>

definition fee_record :: "channel \<Rightarrow> detail \<Rightarrow> error + channel_fee" where
  "fee_record channel detail =
     (case funding_output_str channel of Inl e \<Rightarrow> Inl e | Inr fo \<Rightarrow>
       (case true_div (fee_per_millionth detail) 1000000 of Inl e \<Rightarrow> Inl e | Inr rate \<Rightarrow>
          Inr \<lparr>chan_point = funding_txid channel @ '':'' @ fo,
               base_fee_msat = str_int (base_fee_millisatoshi detail),
               fee_per_mil = str_int (fee_per_millionth detail),
               fee_rate = format_8f rate\<rparr>))"

text \<open>
  Lines 33 to 51: the inner loop over the policy entries of one channel, with its
  \<^verbatim>\<open>break\<close>; the list of records built so far is passed through.
\<close>

fun detail_loop :: "string \<Rightarrow> channel \<Rightarrow> detail list \<Rightarrow> channel_fee list \<Rightarrow> error + channel_fee list" where
  "detail_loop our_nodeid channel [] acc = Inr acc"
| "detail_loop our_nodeid channel (detail # rest) acc =
     (if source detail = our_nodeid then
        (case fee_record channel detail of Inl e \<Rightarrow> Inl e | Inr r \<Rightarrow> Inr (acc @ [r]))
      else detail_loop our_nodeid channel rest acc)"

text \<open>Lines 31 to 51: the outer loop over the funded channels.\<close>

fun channel_loop :: "rpc \<Rightarrow> string \<Rightarrow> channel list \<Rightarrow> channel_fee list \<Rightarrow> error + channel_fee list" where
  "channel_loop rpc our_nodeid [] acc = Inr acc"
| "channel_loop rpc our_nodeid (channel # rest) acc =
     (case listchannels rpc (short_channel_id channel) of Inl e \<Rightarrow> Inl e | Inr channel_detail \<Rightarrow>
       (case detail_loop our_nodeid channel channel_detail acc of Inl e \<Rightarrow> Inl e | Inr acc' \<Rightarrow>
          channel_loop rpc our_nodeid rest acc'))"

subsection \<open>Fee sums of the forwards (lines 53 to 78)\<close>

text \<open>Lines 53 to 55: the settled forwards that carry a resolution time.\<close>

fun fee_data :: "forward list \<Rightarrow> (int \<times> rat) list" where
  "fee_data [] = []"
| "fee_data (fwd # rest) =
     (if status fwd = ''settled'' then
        (case resolved_time fwd of
           Some t \<Rightarrow> (fee fwd, t) # fee_data rest
         | None \<Rightarrow> fee_data rest)
      else fee_data rest)"

text \<open>Lines 63 to 71: the accumulation; the state is (day, week, month).\<close>

fun fee_loop :: "rat \<Rightarrow> rat \<Rightarrow> rat \<Rightarrow> (int \<times> rat) list \<Rightarrow> int \<times> int \<times> int \<Rightarrow> int \<times> int \<times> int" where
  "fee_loop day_ago week_ago month_ago [] totals = totals"
| "fee_loop day_ago week_ago month_ago ((fee_msat, resolved) # rest) (day_sum, week_sum, month_sum) =
     (if resolved > month_ago then
        (if resolved > week_ago then
           (if resolved > day_ago then
              fee_loop day_ago week_ago month_ago rest
                (day_sum + fee_msat, week_sum + fee_msat, month_sum + fee_msat)
            else fee_loop day_ago week_ago month_ago rest (day_sum, week_sum + fee_msat, month_sum + fee_msat))
         else fee_loop day_ago week_ago month_ago rest (day_sum, week_sum, month_sum + fee_msat))
      else fee_loop day_ago week_ago month_ago rest (day_sum, week_sum, month_sum))"

text \<open>Lines 56 to 59: the three cutoffs.\<close>

definition day_ago :: "clock \<Rightarrow> rat" where
  "day_ago clk = timestamp clk (now clk - timedelta_hours 24)"

definition week_ago :: "clock \<Rightarrow> rat" where
  "week_ago clk = timestamp clk (now clk - timedelta_days 7)"

definition month_ago :: "clock \<Rightarrow> rat" where
  "month_ago clk = timestamp clk (now clk - timedelta_days 30)"

text \<open>Lines 53 to 71: the three sums in millisatoshi, as (day, week, month).\<close>

definition fee_sums :: "clock \<Rightarrow> forward list \<Rightarrow> int \<times> int \<times> int" where
  "fee_sums clk forwards =
     fee_loop (day_ago clk) (week_ago clk) (month_ago clk) (fee_data forwards) (0, 0, 0)"

text \<open>Lines 75 to 77: \<^verbatim>\<open>str(int(s / 1000))\<close>.\<close>

definition sat_str :: "int \<Rightarrow> error + string" where
  "sat_str s = (case true_div s 1000 of Inl e \<Rightarrow> Inl e | Inr x \<Rightarrow> Inr (str_int (int_of_float x)))"

subsection \<open>The method\<close>

definition feereport :: "rpc \<Rightarrow> string \<Rightarrow> clock \<Rightarrow> error + report" where
  "feereport rpc our_nodeid clk =
     (case listfunds rpc of Inl e \<Rightarrow> Inl e | Inr channels \<Rightarrow>
     (case channel_loop rpc our_nodeid channels [] of Inl e \<Rightarrow> Inl e | Inr fees \<Rightarrow>
     (case listforwards rpc of Inl e \<Rightarrow> Inl e | Inr forwards \<Rightarrow>
     (case fee_sums clk forwards of (day_sum, week_sum, month_sum) \<Rightarrow>
     (case sat_str day_sum of Inl e \<Rightarrow> Inl e | Inr d \<Rightarrow>
     (case sat_str week_sum of Inl e \<Rightarrow> Inl e | Inr w \<Rightarrow>
     (case sat_str month_sum of Inl e \<Rightarrow> Inl e | Inr m \<Rightarrow>
        Inr \<lparr>channel_fees = fees, day_fee_sum = d, week_fee_sum = w, month_fee_sum = m\<rparr>)))))))"

section \<open>Notions used to state the claims\<close>

text \<open>
  The claims speak of the numbers that the strings of a report denote. These functions read
  a string back: a digit, a string of digits, a signed integer, and a signed decimal
  fraction with a point; \<open>None\<close> when the string is not of that form.
\<close>

definition digit_of :: "char \<Rightarrow> nat option" where
  "digit_of c = map_of
     [(CHR ''0'', 0), (CHR ''1'', 1), (CHR ''2'', 2), (CHR ''3'', 3), (CHR ''4'', 4),
      (CHR ''5'', 5), (CHR ''6'', 6), (CHR ''7'', 7), (CHR ''8'', 8), (CHR ''9'', 9)] c"

text \<open>The value of a string of digits given with the least significant digit first.\<close>

fun digits_value_rev :: "string \<Rightarrow> nat option" where
  "digits_value_rev [] = Some 0"
| "digits_value_rev (c # cs) =
     (case digit_of c of
        None \<Rightarrow> None
      | Some d \<Rightarrow> map_option (\<lambda>v. v * 10 + d) (digits_value_rev cs))"

definition digits_value :: "string \<Rightarrow> nat option" where
  "digits_value s = (if s = [] then None else digits_value_rev (rev s))"

definition int_value :: "string \<Rightarrow> int option" where
  "int_value s =
     (if s \<noteq> [] \<and> hd s = CHR ''-'' then map_option (\<lambda>v. - int v) (digits_value (tl s))
      else map_option int (digits_value s))"

definition unsigned_decimal_value :: "string \<Rightarrow> rat option" where
  "unsigned_decimal_value s =
     (case split_on CHR ''.'' s of
        [ip, fp] \<Rightarrow>
          (case (digits_value ip, digits_value fp) of
             (Some a, Some b) \<Rightarrow> Some (of_nat a + of_nat b / 10 ^ length fp)
           | _ \<Rightarrow> None)
      | _ \<Rightarrow> None)"

definition decimal_value :: "string \<Rightarrow> rat option" where
  "decimal_value s =
     (if s \<noteq> [] \<and> hd s = CHR ''-'' then map_option uminus (unsigned_decimal_value (tl s))
      else unsigned_decimal_value s)"

text \<open>The number of characters after the decimal point.\<close>

definition decimals :: "string \<Rightarrow> nat option" where
  "decimals s = (case split_on CHR ''.'' s of [ip, fp] \<Rightarrow> Some (length fp) | _ \<Rightarrow> None)"

text \<open>
  The policy entry that the report uses for a channel: the first entry of the channel's
  listing whose source is our node, if the listing is returned and has one.
\<close>

definition own_policy :: "rpc \<Rightarrow> string \<Rightarrow> channel \<Rightarrow> detail option" where
  "own_policy rpc our_nodeid channel =
     (case listchannels rpc (short_channel_id channel) of
        Inl e \<Rightarrow> None
      | Inr channel_detail \<Rightarrow> find (\<lambda>detail. source detail = our_nodeid) channel_detail)"

section \<open>Example data\<close>

text \<open>A clock in a zone without offset, whose conversion to epoch seconds is exact.\<close>

definition utc_clock :: "int \<Rightarrow> clock" where
  "utc_clock n = \<lparr>now = n, timestamp = (\<lambda>t. of_int t / 1000000)\<rparr>"

text \<open>A settled forward with the given fee, resolved at the given epoch time.\<close>

definition settled_at :: "int \<Rightarrow> rat \<Rightarrow> forward" where
  "settled_at f t = \<lparr>fee = f, status = ''settled'', resolved_time = Some t\<rparr>"

text \<open>A client whose three calls succeed with the given answers.\<close>

definition rpc_of :: "channel list \<Rightarrow> (string \<Rightarrow> detail list) \<Rightarrow> forward list \<Rightarrow> rpc" where
  "rpc_of chs ds fwds =
     \<lparr>listfunds = Inr chs, listchannels = (\<lambda>scid. Inr (ds scid)), listforwards = Inr fwds\<rparr>"

text \<open>A daemon that gives the same policy listing for every channel.\<close>

definition constant_listing :: "detail list \<Rightarrow> string \<Rightarrow> detail list" where
  "constant_listing ds scid = ds"

text \<open>The channel of the end-to-end example, and a policy entry of the node \<^verbatim>\<open>02aa\<close>.\<close>

definition example_channel :: channel where
  "example_channel =
     \<lparr>short_channel_id = ''700000x1x0'', funding_txid = ''abcd'', funding_output = None\<rparr>"

definition policy_of :: "string \<Rightarrow> int \<Rightarrow> int \<Rightarrow> detail" where
  "policy_of src base ppm =
     \<lparr>source = src, base_fee_millisatoshi = base, fee_per_millionth = ppm\<rparr>"

text \<open>The channel of the end-to-end example with an explicit funding output index.\<close>

definition indexed_channel :: "int \<Rightarrow> channel" where
  "indexed_channel n =
     \<lparr>short_channel_id = ''700000x1x0'', funding_txid = ''abcd'', funding_output = Some n\<rparr>"

section \<open>Properties of the loops\<close>

subsection \<open>The fee sums\<close>

lemma fee_data_append: "fee_data (xs @ ys) = fee_data xs @ fee_data ys"
  by (induction xs) (simp_all split: option.splits)



lemma fee_data_skip:
  assumes "status fwd \<noteq> ''settled'' \<or> resolved_time fwd = None"
  shows "fee_data (pre @ fwd # post) = fee_data (pre @ post)"
proof -
  have "fee_data (fwd # post) = fee_data post" using assms by auto
  then show ?thesis by (simp only: fee_data_append)
qed



lemma cutoffs_utc:
  "day_ago (utc_clock n) = of_int n / 1000000 - 86400"
  "week_ago (utc_clock n) = of_int n / 1000000 - 604800"
  "month_ago (utc_clock n) = of_int n / 1000000 - 2592000"
  by (simp_all add: day_ago_def week_ago_def month_ago_def utc_clock_def
        timedelta_hours_def timedelta_days_def diff_divide_distrib)

lemma channel_loop_rpc:
  "listchannels rpc' = listchannels rpc \<Longrightarrow>
     channel_loop rpc' our_nodeid chs acc = channel_loop rpc our_nodeid chs acc"
  by (induction chs arbitrary: acc) (simp_all split: sum.splits)

lemma feereport_forwards:
  assumes "fee_sums clk fwds' = fee_sums clk fwds"
  shows "feereport (rpc\<lparr>listforwards := Inr fwds'\<rparr>) our_nodeid clk =
         feereport (rpc\<lparr>listforwards := Inr fwds\<rparr>) our_nodeid clk"
proof -
  have c: "channel_loop (rpc\<lparr>listforwards := x\<rparr>) our_nodeid chs [] =
        channel_loop rpc our_nodeid chs []" for chs x
    by (rule channel_loop_rpc) simp
  show ?thesis
  proof (cases "listfunds rpc")
    case (Inl e)
    then show ?thesis by (simp add: feereport_def)
  next
    case (Inr chs)
    show ?thesis
    proof (cases "channel_loop rpc our_nodeid chs []")
      case (Inl e)
      then show ?thesis using Inr by (simp add: feereport_def c)
    next
      case (Inr fees)
      then show ?thesis using \<open>listfunds rpc = Inr chs\<close> by (simp add: feereport_def c assms)
    qed
  qed
qed



section \<open>The claims about the fee sums\<close>

text \<open>
  C5: a forward whose status is not \<^verbatim>\<open>settled\<close>, or that has no \<^verbatim>\<open>resolved_time\<close>,
  contributes to none of the day, week and month sums: the three sums, and with them the
  whole report, are those of the forwarding history without this event.
\<close>

theorem unqualified_forward_contributes_nothing:
  assumes "status fwd \<noteq> ''settled'' \<or> resolved_time fwd = None"
  shows "fee_sums clk (pre @ fwd # post) = fee_sums clk (pre @ post) \<and>
         feereport (rpc\<lparr>listforwards := Inr (pre @ fwd # post)\<rparr>) our_nodeid clk =
         feereport (rpc\<lparr>listforwards := Inr (pre @ post)\<rparr>) our_nodeid clk"
proof -
  have a: "fee_sums clk (pre @ fwd # post) = fee_sums clk (pre @ post)"
    by (simp only: fee_sums_def fee_data_skip [OF assms])
  show ?thesis
    by (intro conjI) (rule a, rule feereport_forwards [OF a])
qed



lemma fee_sums_utc_single:
  "fee_sums (utc_clock 1600000000000000) [settled_at f 1599999000] = (f, f, f)"
  by (simp add: fee_sums_def cutoffs_utc settled_at_def)

theorem unqualified_forward_contributes_nothing_witness:
  "fee_sums (utc_clock 1600000000000000)
     ([settled_at 1999 1599999000] @ \<lparr>fee = 5000, status = ''failed'', resolved_time = Some 1599999500\<rparr> # [])
   = (1999, 1999, 1999)"
proof -
  have h: "status \<lparr>fee = 5000, status = ''failed'', resolved_time = Some 1599999500\<rparr> \<noteq> ''settled''
      \<or> resolved_time \<lparr>fee = 5000, status = ''failed'', resolved_time = Some 1599999500\<rparr> = None"
    by simp
  have "fee_sums (utc_clock 1600000000000000)
     ([settled_at 1999 1599999000] @ \<lparr>fee = 5000, status = ''failed'', resolved_time = Some 1599999500\<rparr> # [])
     = fee_sums (utc_clock 1600000000000000) ([settled_at 1999 1599999000] @ [])"
    by (rule unqualified_forward_contributes_nothing [OF h, THEN conjunct1])
  then show ?thesis by (simp add: fee_sums_utc_single)
qed



section \<open>Properties of the float primitives\<close>

subsection \<open>Rounding to the nearest integer\<close>

lemma rhe_bounds: "of_int (round_half_even x) - 1 / 2 \<le> x \<and> x \<le> of_int (round_half_even x) + 1 / 2"
  unfolding round_half_even_def Let_def
  by (auto; linarith)

lemma rhe_unique: assumes "\<bar>x - of_int k\<bar> < 1 / 2" shows "round_half_even x = k"
proof -
  have "\<bar>(of_int (round_half_even x) :: rat) - of_int k\<bar> < 1"
    using rhe_bounds [of x] assms by linarith
  then have "\<bar>round_half_even x - k\<bar> < 1"
    by (metis of_int_abs of_int_diff of_int_less_1_iff)
  then show ?thesis by linarith
qed

lemma rhe_of_int: "round_half_even (of_int k) = k"
  by (simp add: round_half_even_def)

lemma rhe_ge_floor: "\<lfloor>x\<rfloor> \<le> round_half_even x"
  by (simp add: round_half_even_def Let_def)

lemma rhe_le_floor1: "round_half_even x \<le> \<lfloor>x\<rfloor> + 1"
  by (simp add: round_half_even_def Let_def)

lemma rhe_mono: assumes "x \<le> y" shows "round_half_even x \<le> round_half_even y"
proof (cases "\<lfloor>x\<rfloor> = \<lfloor>y\<rfloor>")
  case True
  then show ?thesis using assms
    by (auto simp: round_half_even_def Let_def)
next
  case False
  then have "\<lfloor>x\<rfloor> + 1 \<le> \<lfloor>y\<rfloor>" using floor_mono [OF assms] by linarith
  then show ?thesis using rhe_ge_floor [of y] rhe_le_floor1 [of x] by linarith
qed

subsection \<open>Powers of two and the binary exponent\<close>

lemma pow2_add: "power_int (2::rat) (m + n) = power_int 2 m * power_int 2 n"
  by (simp add: power_int_add)

lemma pow2_pos: "0 < power_int (2::rat) e"
  by simp

lemma pow2_mono: "j \<le> k \<Longrightarrow> power_int (2::rat) j \<le> power_int 2 k"
  by (rule power_int_increasing) simp_all

lemma pow2_less_imp: "power_int (2::rat) j < power_int 2 k \<Longrightarrow> j < k"
  using pow2_mono [of k j] by (cases "j < k") simp_all

lemma pow2_neg_exp: "1 / power_int (2::rat) e = power_int 2 (- e)"
  by (simp add: power_int_minus_divide)

lemma bitlen_rat_bounds:
  assumes "0 < a"
  shows "power_int (2::rat) (bitlen a - 1) \<le> of_int a" and "of_int a < power_int (2::rat) (bitlen a)"
proof -
  have b1: "1 \<le> bitlen a" using assms bitlen_eq_zero_iff [of a] bitlen_nonneg [of a] by linarith
  have "(2::int) ^ nat (bitlen a - 1) \<le> a" and "a < 2 ^ nat (bitlen a)"
    using bitlen_bounds [OF assms] by auto
  then have "(of_int ((2::int) ^ nat (bitlen a - 1)) :: rat) \<le> of_int a"
    and "(of_int a :: rat) < of_int (2 ^ nat (bitlen a))"
    by (simp_all only: of_int_le_iff of_int_less_iff)
  then show "power_int (2::rat) (bitlen a - 1) \<le> of_int a" and "of_int a < power_int (2::rat) (bitlen a)"
    using b1 by (simp_all add: power_int_def)
qed

lemma floor_log2_bounds:
  assumes "0 < x"
  shows "power_int 2 (floor_log2 x) \<le> x \<and> x < power_int 2 (floor_log2 x + 1)"
proof -
  obtain a b where q: "quotient_of x = (a, b)" by (cases "quotient_of x")
  have b: "0 < b" using quotient_of_denom_pos [OF q] .
  have x: "x = of_int a / of_int b" using quotient_of_div [OF q] .
  have a: "0 < a" using assms b by (simp add: x zero_less_divide_iff)
  define k where "k = bitlen a - bitlen b"
  have "x * of_int b < power_int 2 (bitlen a)"
    using bitlen_rat_bounds(2) [OF a] b by (simp add: x)
  also have "power_int (2::rat) (bitlen a) = power_int 2 (k + 1) * power_int 2 (bitlen b - 1)"
    unfolding pow2_add [symmetric] k_def by simp
  also have "\<dots> \<le> power_int 2 (k + 1) * of_int b"
    using bitlen_rat_bounds(1) [OF b] by (simp add: mult_left_mono)
  finally have hi: "x < power_int 2 (k + 1)" using b by simp
  have "power_int 2 (k - 1) * (of_int b :: rat) < power_int 2 (k - 1) * power_int 2 (bitlen b)"
    using bitlen_rat_bounds(2) [OF b] by (simp add: mult_strict_left_mono)
  also have "\<dots> = power_int 2 (bitlen a - 1)"
    unfolding pow2_add [symmetric] k_def by simp
  also have "\<dots> \<le> x * of_int b"
    using bitlen_rat_bounds(1) [OF a] b by (simp add: x)
  finally have lo: "power_int 2 (k - 1) < x" using b by simp
  show ?thesis
    using lo hi by (simp add: floor_log2_def q k_def [symmetric] Let_def)
qed

lemma floor_log2_unique:
  assumes "power_int 2 k \<le> x" and "x < power_int 2 (k + 1)"
  shows "floor_log2 x = k"
proof -
  have "0 < x" using assms(1) pow2_pos [of k] by linarith
  from floor_log2_bounds [OF this]
  have "power_int 2 (floor_log2 x) \<le> x" and "x < power_int 2 (floor_log2 x + 1)" by auto
  then have "power_int (2::rat) (floor_log2 x) < power_int 2 (k + 1)"
    and "power_int (2::rat) k < power_int 2 (floor_log2 x + 1)"
    using assms by linarith+
  then have "floor_log2 x < k + 1" and "k < floor_log2 x + 1"
    by (auto dest: pow2_less_imp)
  then show ?thesis by linarith
qed

lemma floor_log2_less: assumes "0 < x" and "x < power_int 2 K" shows "floor_log2 x < K"
proof -
  have "power_int 2 (floor_log2 x) \<le> x" using floor_log2_bounds [OF assms(1)] by simp
  then have "power_int (2::rat) (floor_log2 x) < power_int 2 K" using assms(2) by linarith
  then show ?thesis by (rule pow2_less_imp)
qed

lemma floor_log2_mono: assumes "0 < x" and "x \<le> y" shows "floor_log2 x \<le> floor_log2 y"
proof -
  have y: "0 < y" using assms by linarith
  have "y < power_int 2 (floor_log2 y + 1)" using floor_log2_bounds [OF y] by simp
  then have "x < power_int 2 (floor_log2 y + 1)" using assms(2) by linarith
  from floor_log2_less [OF assms(1) this] show ?thesis by simp
qed

lemma double_exponent_neg: "double_exponent (- x) = double_exponent x"
  by (simp add: double_exponent_def)

lemma double_exponent_le:
  assumes "0 < x" and "x < power_int 2 K"
  shows "double_exponent x \<le> max (K - 53) (- 1074)"
  using floor_log2_less [OF assms] assms(1) by (simp add: double_exponent_def)

lemma double_exponent_mono:
  assumes "0 < x" and "x \<le> y" shows "double_exponent x \<le> double_exponent y"
proof -
  have "0 < y" using assms by linarith
  then show ?thesis
    using floor_log2_mono [OF assms] assms(1) by (simp add: double_exponent_def)
qed

subsection \<open>Rounding to binary64\<close>

lemma round_double_neg: "round_double (- x) = - round_double x"
  by (simp add: round_double_def double_exponent_neg Let_def)

lemma round_double_pos:
  "0 < x \<Longrightarrow> round_double x =
     of_int (round_half_even (x / power_int 2 (double_exponent x))) * power_int 2 (double_exponent x)"
  by (simp add: round_double_def Let_def)

lemma round_double_nonneg: assumes "0 \<le> x" shows "0 \<le> round_double x"
proof (cases "x = 0")
  case True
  then show ?thesis by (simp add: round_double_def)
next
  case False
  then have x: "0 < x" using assms by simp
  have "0 \<le> x / power_int 2 (double_exponent x)" using x by simp
  then have "round_half_even 0 \<le> round_half_even (x / power_int 2 (double_exponent x))"
    by (rule rhe_mono)
  then have "0 \<le> round_half_even (x / power_int 2 (double_exponent x))"
    using rhe_of_int [of 0] by simp
  then show ?thesis by (simp add: round_double_pos [OF x])
qed

lemma round_double_error:
  "\<bar>round_double x - x\<bar> \<le> power_int 2 (double_exponent x) / 2"
proof -
  have pos: "\<bar>round_double y - y\<bar> \<le> power_int 2 (double_exponent y) / 2" if y: "0 < y" for y
  proof -
    define p where "p = power_int (2::rat) (double_exponent y)"
    have p: "0 < p" by (simp add: p_def)
    define m where "m = round_half_even (y / p)"
    have "\<bar>of_int m - y / p\<bar> \<le> 1 / 2"
      using rhe_bounds [of "y / p"] unfolding m_def by linarith
    then have "\<bar>of_int m - y / p\<bar> * p \<le> 1 / 2 * p"
      using p by (simp add: mult_right_mono)
    moreover have "\<bar>of_int m - y / p\<bar> * p = \<bar>of_int m * p - y\<bar>"
    proof -
      have e: "(of_int m - y / p) * p = of_int m * p - y"
        using p by (simp add: left_diff_distrib)
      have "\<bar>of_int m - y / p\<bar> * p = \<bar>of_int m - y / p\<bar> * \<bar>p\<bar>"
        using p by simp
      also have "\<dots> = \<bar>(of_int m - y / p) * p\<bar>"
        by (simp only: abs_mult)
      finally show ?thesis by (simp only: e)
    qed
    ultimately show ?thesis
      by (simp add: round_double_pos [OF y] p_def [symmetric] m_def [symmetric])
  qed
  consider "x = 0" | "0 < x" | "0 < - x" by linarith
  then show ?thesis
  proof cases
    case 1
    then show ?thesis by (simp add: round_double_def)
  next
    case 2
    then show ?thesis by (rule pos)
  next
    case 3
    from pos [OF this] show ?thesis
      by (simp add: round_double_neg double_exponent_neg abs_minus_commute)
  qed
qed

lemma round_double_error_below:
  assumes x: "0 < x" and b: "x < power_int 2 K" and K: "- 1021 \<le> K"
  shows "\<bar>round_double x - x\<bar> \<le> power_int 2 (K - 54)"
proof -
  have "double_exponent x \<le> K - 53" using double_exponent_le [OF x b] K by simp
  then have "power_int (2::rat) (double_exponent x) \<le> power_int 2 (K - 53)" by (rule pow2_mono)
  moreover have "power_int (2::rat) (K - 53) = power_int 2 (K - 54) * 2"
    using pow2_add [of "K - 54" 1] by simp
  ultimately show ?thesis using round_double_error [of x] by linarith
qed

lemma round_double_upper:
  assumes x: "0 < x"
  shows "round_double x \<le> power_int 2 (double_exponent x + 53)"
proof -
  define e where "e = double_exponent x"
  have "floor_log2 x + 1 \<le> e + 53" using x by (simp add: e_def double_exponent_def)
  then have "power_int (2::rat) (floor_log2 x + 1) \<le> power_int 2 (e + 53)" by (rule pow2_mono)
  then have "x \<le> power_int 2 (e + 53)" using floor_log2_bounds [OF x] by linarith
  then have "x \<le> of_int (2 ^ 53) * power_int 2 e" by (simp add: pow2_add mult.commute)
  then have "x / power_int 2 e \<le> of_int (2 ^ 53)" by (simp add: pos_divide_le_eq)
  then have "round_half_even (x / power_int 2 e) \<le> round_half_even (of_int (2 ^ 53))" by (rule rhe_mono)
  then have "round_half_even (x / power_int 2 e) \<le> 2 ^ 53" by (simp only: rhe_of_int)
  then have "(of_int (round_half_even (x / power_int 2 e)) :: rat) \<le> of_int (2 ^ 53)"
    by (simp only: of_int_le_iff)
  then have "of_int (round_half_even (x / power_int 2 e)) * power_int 2 e \<le> of_int (2 ^ 53) * power_int (2::rat) e"
    by (rule mult_right_mono) simp
  then show ?thesis
    by (simp add: round_double_pos [OF x] e_def [symmetric] pow2_add mult.commute)
qed

lemma round_double_lower:
  assumes x: "0 < x" and e: "- 1074 < double_exponent x"
  shows "power_int 2 (double_exponent x + 52) \<le> round_double x"
proof -
  define e where "e = double_exponent x"
  have "e + 52 = floor_log2 x" using x assms(2) by (simp add: e_def double_exponent_def)
  then have "power_int 2 (e + 52) \<le> x" using floor_log2_bounds [OF x] by simp
  then have "of_int (2 ^ 52) * power_int 2 e \<le> x" by (simp add: pow2_add mult.commute)
  then have "of_int (2 ^ 52) \<le> x / power_int 2 e" by (simp add: pos_le_divide_eq)
  then have "round_half_even (of_int (2 ^ 52)) \<le> round_half_even (x / power_int 2 e)" by (rule rhe_mono)
  then have "2 ^ 52 \<le> round_half_even (x / power_int 2 e)" by (simp only: rhe_of_int)
  then have "(of_int (2 ^ 52) :: rat) \<le> of_int (round_half_even (x / power_int 2 e))"
    by (simp only: of_int_le_iff)
  then have "of_int (2 ^ 52) * power_int (2::rat) e \<le> of_int (round_half_even (x / power_int 2 e)) * power_int 2 e"
    by (rule mult_right_mono) simp
  then show ?thesis
    by (simp add: round_double_pos [OF x] e_def [symmetric] pow2_add mult.commute)
qed

lemma round_double_mono_pos:
  assumes x: "0 < x" and xy: "x \<le> y"
  shows "round_double x \<le> round_double y"
proof -
  have y: "0 < y" using x xy by linarith
  define ex ey where "ex = double_exponent x" and "ey = double_exponent y"
  have le: "ex \<le> ey" unfolding ex_def ey_def using x xy by (rule double_exponent_mono)
  show ?thesis
  proof (cases "ex = ey")
    case True
    have "x / power_int 2 ex \<le> y / power_int 2 ex" using xy by (simp add: divide_right_mono)
    then have "round_half_even (x / power_int 2 ex) \<le> round_half_even (y / power_int 2 ex)"
      by (rule rhe_mono)
    then have "(of_int (round_half_even (x / power_int 2 ex)) :: rat)
        \<le> of_int (round_half_even (y / power_int 2 ex))"
      by (simp only: of_int_le_iff)
    then have "of_int (round_half_even (x / power_int 2 ex)) * power_int (2::rat) ex
        \<le> of_int (round_half_even (y / power_int 2 ex)) * power_int 2 ex"
      by (rule mult_right_mono) simp
    then show ?thesis
      using True by (simp add: round_double_pos [OF x] round_double_pos [OF y] ex_def ey_def)
  next
    case False
    then have lt: "ex + 53 \<le> ey + 52" using le by linarith
    have "- 1074 \<le> ex" by (simp add: ex_def double_exponent_def)
    then have "- 1074 < double_exponent y" using lt by (simp add: ey_def)
    from round_double_lower [OF y this]
    have "power_int 2 (ey + 52) \<le> round_double y" by (simp add: ey_def)
    moreover have "round_double x \<le> power_int 2 (ex + 53)"
      using round_double_upper [OF x] by (simp add: ex_def)
    moreover have "power_int (2::rat) (ex + 53) \<le> power_int 2 (ey + 52)"
      using lt by (rule pow2_mono)
    ultimately show ?thesis by linarith
  qed
qed

lemma round_double_mono_nonneg:
  assumes "0 \<le> x" and "x \<le> y"
  shows "round_double x \<le> round_double y"
proof (cases "x = 0")
  case True
  have "0 \<le> y" using assms by linarith
  then show ?thesis using round_double_nonneg [of y] True by (simp add: round_double_def)
next
  case False
  then have "0 < x" using assms(1) by simp
  then show ?thesis using assms(2) by (rule round_double_mono_pos)
qed

lemma round_double_of_int:
  assumes "0 \<le> q" and "q < 2 ^ 53"
  shows "round_double (of_int q) = of_int q"
proof (cases "q = 0")
  case True
  then show ?thesis by (simp add: round_double_def)
next
  case False
  then have q: "0 < (of_int q :: rat)" using assms(1) by simp
  define e where "e = double_exponent (of_int q)"
  have "(of_int q :: rat) < of_int (2 ^ 53)" using assms(2) by (simp only: of_int_less_iff)
  then have "(of_int q :: rat) < power_int 2 53" by simp
  from double_exponent_le [OF q this] have e: "e \<le> 0" by (simp add: e_def)
  have "of_int q / power_int (2::rat) e = of_int q * power_int 2 (- e)"
    by (simp add: pow2_neg_exp [symmetric])
  also have "power_int (2::rat) (- e) = 2 ^ nat (- e)"
    using e by (simp add: power_int_def)
  also have "of_int q * (2::rat) ^ nat (- e) = of_int (q * 2 ^ nat (- e))"
    by simp
  finally have "round_half_even (of_int q / power_int 2 e) = q * 2 ^ nat (- e)"
    by (simp only: rhe_of_int)
  then have "round_double (of_int q) = of_int (q * 2 ^ nat (- e)) * power_int 2 e"
    by (simp add: round_double_pos [OF q] e_def [symmetric])
  also have "\<dots> = of_int q * (power_int 2 (- e) * power_int 2 e)"
    using e by (simp add: power_int_def)
  also have "\<dots> = of_int q"
    by (simp add: pow2_add [symmetric])
  finally show ?thesis .
qed

subsection \<open>Converting a sum to satoshi\<close>

lemma div_1000_rat: "(of_int t :: rat) / 1000 = of_int (t div 1000) + of_int (t mod 1000) / 1000"
proof -
  have "(of_int t :: rat) = of_int (t div 1000 * 1000 + t mod 1000)" by simp
  also have "\<dots> = of_int (t div 1000) * 1000 + of_int (t mod 1000)"
    by (simp only: of_int_add of_int_mult of_int_numeral)
  finally show ?thesis by (simp add: add_divide_distrib)
qed

lemma round_div_1000:
  assumes t0: "0 \<le> t" and tb: "t < 17592186044416000"
  shows "of_int (t div 1000) \<le> round_double (of_int t / 1000)"
    and "round_double (of_int t / 1000) < of_int (t div 1000) + 1"
proof -
  define x :: rat where "x = of_int t / 1000"
  define q where "q = t div 1000"
  have q0: "0 \<le> q" and qb: "q < 2 ^ 53" using t0 tb by (simp_all add: q_def)
  have m: "0 \<le> t mod 1000" "t mod 1000 \<le> 999" by simp_all
  have xq: "x = of_int q + of_int (t mod 1000) / 1000" unfolding x_def q_def by (rule div_1000_rat)
  have lo: "of_int q \<le> x" using m(1) by (simp add: xq)
  have "(of_int (t mod 1000) :: rat) \<le> of_int 999" using m(2) by (simp only: of_int_le_iff)
  then have hi: "x \<le> of_int q + 999 / 1000" by (simp add: xq)
  have "round_double (of_int q) \<le> round_double x"
    using q0 lo by (intro round_double_mono_nonneg) simp_all
  then have "of_int q \<le> round_double x"
    by (simp only: round_double_of_int [OF q0 qb])
  then show "of_int (t div 1000) \<le> round_double (of_int t / 1000)"
    unfolding x_def q_def .
  have "round_double x < of_int q + 1"
  proof (cases "x = 0")
    case True
    then show ?thesis using q0 by (simp add: round_double_def)
  next
    case False
    have "(0::rat) \<le> of_int q" using q0 by simp
    then have x0: "0 < x" using lo False by linarith
    have "(of_int t :: rat) < of_int 17592186044416000" using tb by (simp only: of_int_less_iff)
    then have "x < power_int 2 44" by (simp add: x_def)
    from round_double_error_below [OF x0 this]
    have "\<bar>round_double x - x\<bar> \<le> 1 / 1024" by simp
    then show ?thesis using hi by linarith
  qed
  then show "round_double (of_int t / 1000) < of_int (t div 1000) + 1"
    unfolding x_def q_def .
qed

lemma int_of_float_neg: "int_of_float (- x) = - int_of_float x"
  by (cases "x = 0") (auto simp: int_of_float_def)

lemma sdiv_1000: "(t::int) sdiv 1000 = (if 0 \<le> t then t div 1000 else - ((- t) div 1000))"
  by (auto simp: signed_divide_int_def sgn_if)

lemma sat_str_exact:
  assumes "\<bar>t\<bar> < 17592186044416000"
  shows "sat_str t = Inr (str_int (t sdiv 1000))"
proof -
  define s where "s = \<bar>t\<bar>"
  have s: "0 \<le> s" "s < 17592186044416000" using assms by (simp_all add: s_def)
  define y where "y = round_double (of_int s / 1000)"
  note b = round_div_1000 [OF s, folded y_def]
  have "(0::rat) \<le> of_int (s div 1000)" using s(1) by simp
  then have y0: "0 \<le> y" using b(1) by linarith
  have "s div 1000 \<le> 17592186044415" using s(2) by simp
  then have "(of_int (s div 1000) :: rat) \<le> of_int 17592186044415" by (simp only: of_int_le_iff)
  then have yb: "y < 2 ^ 1024" using b(2) by simp
  have "\<lfloor>y\<rfloor> = s div 1000" using b by (intro floor_unique) simp_all
  then have iy: "int_of_float y = s div 1000" using y0 by (simp add: int_of_float_def)
  show ?thesis
  proof (cases "0 \<le> t")
    case True
    then have "s = t" by (simp add: s_def)
    then show ?thesis using y0 yb iy True
      by (simp add: sat_str_def true_div_def y_def sdiv_1000)
  next
    case False
    then have st: "t = - s" by (simp add: s_def)
    have "round_double (of_int t / 1000) = - y"
      by (simp add: st y_def round_double_neg [symmetric])
    then show ?thesis using y0 yb iy False
      by (simp add: sat_str_def true_div_def sdiv_1000 int_of_float_neg st)
  qed
qed

lemma sat_str_value:
  "sat_str t = Inr a \<Longrightarrow> a = str_int (int_of_float (round_double (of_int t / 1000)))"
  by (auto simp: sat_str_def true_div_def Let_def split: if_splits)

lemma sat_value_mono:
  assumes "0 \<le> s" and "s \<le> t"
  shows "0 \<le> int_of_float (round_double (of_int s / 1000))"
    and "int_of_float (round_double (of_int s / 1000)) \<le> int_of_float (round_double (of_int t / 1000))"
proof -
  have a: "(0::rat) \<le> of_int s / 1000" using assms(1) by simp
  have b: "(of_int s :: rat) / 1000 \<le> of_int t / 1000" using assms(2) by simp
  have ys: "0 \<le> round_double (of_int s / 1000)" using a by (rule round_double_nonneg)
  have le: "round_double (of_int s / 1000) \<le> round_double (of_int t / 1000)"
    using a b by (rule round_double_mono_nonneg)
  then have yt: "0 \<le> round_double (of_int t / 1000)" using ys by linarith
  show "0 \<le> int_of_float (round_double (of_int s / 1000))"
    using ys by (simp add: int_of_float_def)
  show "int_of_float (round_double (of_int s / 1000)) \<le> int_of_float (round_double (of_int t / 1000))"
    using ys yt le by (simp add: int_of_float_def floor_mono)
qed

text \<open>Evaluating the rounding at a given number, from its binary exponent.\<close>

lemma round_double_eval:
  assumes "power_int 2 (e + 52) \<le> x" and "x < power_int 2 (e + 53)" and "- 1074 \<le> e"
  shows "round_double x = of_int (round_half_even (x / power_int 2 e)) * power_int 2 e"
proof -
  have x: "0 < x" using assms(1) pow2_pos [of "e + 52"] by linarith
  have "x < power_int 2 (e + 52 + 1)" using assms(2) by (simp add: add.commute add.left_commute)
  with assms(1) have "floor_log2 x = e + 52" by (rule floor_log2_unique)
  then have "double_exponent x = e" using x assms(3) by (simp add: double_exponent_def)
  then show ?thesis by (simp add: round_double_pos [OF x])
qed

section \<open>Properties of the string primitives\<close>

lemma digit_cases: "d < 10 \<Longrightarrow> d \<in> {0, 1, 2, 3, 4, 5, 6, 7, 8, 9::nat}"
  by auto

lemma digit_of_digit_char: "d < 10 \<Longrightarrow> digit_of (digit_char d) = Some d"
  by (drule digit_cases) (auto simp: digit_of_def digit_char_def)

lemma digit_char_not_special: "d < 10 \<Longrightarrow> digit_char d \<noteq> CHR ''-'' \<and> digit_char d \<noteq> CHR ''.'' \<and> digit_char d \<noteq> CHR ''x''"
  by (drule digit_cases) (auto simp: digit_char_def)

lemma str_nat_not_Nil: "str_nat n \<noteq> []"
  by (subst str_nat.simps) simp

lemma digits_value_snoc:
  "digits_value (xs @ [c]) =
     (case digit_of c of None \<Rightarrow> None
      | Some d \<Rightarrow> map_option (\<lambda>v. v * 10 + d) (digits_value_rev (rev xs)))"
  by (simp add: digits_value_def)

lemma digits_value_str_nat: "digits_value (str_nat n) = Some n"
proof (induction n rule: str_nat.induct)
  case (1 n)
  show ?case
  proof (cases "n < 10")
    case True
    then show ?thesis
      using digits_value_snoc [of "[]" "digit_char n"]
      by (subst str_nat.simps) (simp add: digit_of_digit_char)
  next
    case False
    have "digits_value_rev (rev (str_nat (n div 10))) = Some (n div 10)"
      using "1.IH" [OF False] str_nat_not_Nil [of "n div 10"] by (simp add: digits_value_def)
    then show ?thesis using False
      by (subst str_nat.simps) (simp add: digits_value_snoc digit_of_digit_char)
  qed
qed

lemma str_nat_chars: "c \<in> set (str_nat n) \<Longrightarrow> c \<noteq> CHR ''-'' \<and> c \<noteq> CHR ''.'' \<and> c \<noteq> CHR ''x''"
proof (induction n rule: str_nat.induct)
  case (1 n)
  show ?case
  proof (cases "n < 10")
    case True
    then show ?thesis using "1.prems" digit_char_not_special [of n]
      by (subst (asm) str_nat.simps) simp
  next
    case False
    have "n mod 10 < 10" by simp
    from digit_char_not_special [OF this] show ?thesis
      using False "1.prems" "1.IH" [OF False]
      by (subst (asm) str_nat.simps) auto
  qed
qed

lemma length_digits_fixed: "length (digits_fixed w n) = w"
  by (induction w arbitrary: n) simp_all

lemma digits_fixed_chars: "c \<in> set (digits_fixed w n) \<Longrightarrow> c \<noteq> CHR ''-'' \<and> c \<noteq> CHR ''.'' \<and> c \<noteq> CHR ''x''"
proof (induction w arbitrary: n)
  case 0
  then show ?case by simp
next
  case (Suc w)
  have "n mod 10 < 10" by simp
  from digit_char_not_special [OF this] show ?case
    using Suc.prems Suc.IH [of "n div 10"] by auto
qed

lemma digits_value_rev_fixed: "digits_value_rev (rev (digits_fixed w n)) = Some (n mod 10 ^ w)"
proof (induction w arbitrary: n)
  case 0
  show ?case by simp
next
  case (Suc w)
  have "n mod 10 ^ Suc w = (n div 10) mod 10 ^ w * 10 + n mod 10"
    by (simp add: mod_mult2_eq)
  then show ?case by (simp add: Suc.IH digit_of_digit_char)
qed

lemma digits_value_fixed: "0 < w \<Longrightarrow> digits_value (digits_fixed w n) = Some (n mod 10 ^ w)"
  using length_digits_fixed [of w n] by (auto simp: digits_value_def digits_value_rev_fixed)

lemma split_on_absent: "c \<notin> set xs \<Longrightarrow> split_on c xs = [xs]"
  by (induction xs) auto

lemma split_on_first: "c \<notin> set xs \<Longrightarrow> split_on c (xs @ c # ys) = xs # split_on c ys"
  by (induction xs) auto

lemma int_value_str_int: "int_value (str_int i) = Some i"
proof (cases "i < 0")
  case True
  then show ?thesis by (simp add: int_value_def str_int_def digits_value_str_nat)
next
  case False
  obtain c cs where s: "str_nat (nat i) = c # cs"
    using str_nat_not_Nil [of "nat i"] by (cases "str_nat (nat i)") auto
  then have "c \<in> set (str_nat (nat i))" by simp
  then have "c \<noteq> CHR ''-''" using str_nat_chars by blast
  then have "int_value (str_nat (nat i)) = map_option int (digits_value (str_nat (nat i)))"
    by (simp add: int_value_def s)
  then show ?thesis using False by (simp add: str_int_def digits_value_str_nat)
qed

section \<open>The report as a whole\<close>

lemma feereport_Inr:
  assumes "listfunds rpc = Inr chs" and "channel_loop rpc our_nodeid chs [] = Inr fees"
    and "listforwards rpc = Inr fwds" and "fee_sums clk fwds = (d, w, m)"
    and "sat_str d = Inr a" and "sat_str w = Inr b" and "sat_str m = Inr c"
  shows "feereport rpc our_nodeid clk =
     Inr \<lparr>channel_fees = fees, day_fee_sum = a, week_fee_sum = b, month_fee_sum = c\<rparr>"
  by (simp add: feereport_def assms)

lemma feereport_InrD:
  assumes "feereport rpc our_nodeid clk = Inr rep"
  obtains chs fwds d w m where "listfunds rpc = Inr chs"
    and "channel_loop rpc our_nodeid chs [] = Inr (channel_fees rep)"
    and "listforwards rpc = Inr fwds" and "fee_sums clk fwds = (d, w, m)"
    and "sat_str d = Inr (day_fee_sum rep)" and "sat_str w = Inr (week_fee_sum rep)"
    and "sat_str m = Inr (month_fee_sum rep)"
proof -
  obtain chs where 1: "listfunds rpc = Inr chs"
    using assms by (cases "listfunds rpc") (simp_all add: feereport_def)
  obtain fees where 2: "channel_loop rpc our_nodeid chs [] = Inr fees"
    using assms 1 by (cases "channel_loop rpc our_nodeid chs []") (simp_all add: feereport_def)
  obtain fwds where 3: "listforwards rpc = Inr fwds"
    using assms 1 2 by (cases "listforwards rpc") (simp_all add: feereport_def)
  obtain d w m where 4: "fee_sums clk fwds = (d, w, m)" by (cases "fee_sums clk fwds")
  obtain a where 5: "sat_str d = Inr a"
    using assms 1 2 3 4 by (cases "sat_str d") (simp_all add: feereport_def)
  obtain b where 6: "sat_str w = Inr b"
    using assms 1 2 3 4 5 by (cases "sat_str w") (simp_all add: feereport_def)
  obtain c where 7: "sat_str m = Inr c"
    using assms 1 2 3 4 5 6 by (cases "sat_str m") (simp_all add: feereport_def)
  have "rep = \<lparr>channel_fees = fees, day_fee_sum = a, week_fee_sum = b, month_fee_sum = c\<rparr>"
    using assms feereport_Inr [OF 1 2 3 4 5 6 7] by simp
  then show ?thesis using that [OF 1 _ 3 4] 2 5 6 7 by simp
qed

lemma rpc_of_simps:
  "listfunds (rpc_of chs ds fwds) = Inr chs"
  "listchannels (rpc_of chs ds fwds) scid = Inr (ds scid)"
  "listforwards (rpc_of chs ds fwds) = Inr fwds"
  by (simp_all add: rpc_of_def)

lemma rhe_frac:
  assumes "0 < b"
  shows "round_half_even (of_int a / of_int b) =
     (if 2 * (a mod b) < b then a div b
      else if b < 2 * (a mod b) then a div b + 1
      else if even (a div b) then a div b else a div b + 1)"
proof -
  have f: "\<lfloor>(of_int a :: rat) / of_int b\<rfloor> = a div b" by (rule floor_divide_of_int_eq)
  have "(of_int a :: rat) = of_int (a div b * b + a mod b)" by simp
  also have "\<dots> = of_int (a div b) * of_int b + of_int (a mod b)"
    by (simp only: of_int_add of_int_mult)
  finally have r: "(of_int a :: rat) / of_int b - of_int (a div b) = of_int (a mod b) / of_int b"
    using assms by (simp add: field_simps)
  have lt: "(of_int (a mod b) :: rat) / of_int b < 1 / 2 \<longleftrightarrow> 2 * (a mod b) < b"
  proof -
    have "(of_int (a mod b) :: rat) / of_int b < 1 / 2 \<longleftrightarrow> (of_int (2 * (a mod b)) :: rat) < of_int b"
      using assms by (simp add: field_simps)
    then show ?thesis by (simp only: of_int_less_iff)
  qed
  have gt: "1 / 2 < (of_int (a mod b) :: rat) / of_int b \<longleftrightarrow> b < 2 * (a mod b)"
  proof -
    have "1 / 2 < (of_int (a mod b) :: rat) / of_int b \<longleftrightarrow> (of_int b :: rat) < of_int (2 * (a mod b))"
      using assms by (simp add: field_simps)
    then show ?thesis by (simp only: of_int_less_iff)
  qed
  show ?thesis
    unfolding round_half_even_def Let_def f r lt gt by simp
qed

lemma round_double_large_sum: "round_double (17592186044416999 / 1000) = 17592186044417"
proof -
  have "round_double (17592186044416999 / 1000) =
      of_int (round_half_even ((17592186044416999 / 1000) / power_int 2 (- 8))) * power_int 2 (- 8)"
    by (rule round_double_eval) simp_all
  also have "(17592186044416999 / 1000) / power_int 2 (- 8) = (562949953421343968 :: rat) / 125"
    by simp
  also have "round_half_even (562949953421343968 / 125) = 4503599627370752"
    using rhe_frac [of 125 562949953421343968] by simp
  finally show ?thesis by simp
qed

lemma sat_str_large_sum: "sat_str 17592186044416999 = Inr ''17592186044417''"
  by (simp add: sat_str_def true_div_def round_double_large_sum int_of_float_def
      str_int_def str_nat.simps digit_char_def)

section \<open>The claim about the conversion to satoshi\<close>

text \<open>
  C3 as stated fails: a single settled forward of 17592186044416999 millisatoshi gives the day,
  week and month totals 17592186044416999, whose integer quotient by 1000 is 17592186044416,
  but the report shows 17592186044417, because the quotient is formed as a float.
\<close>

theorem fee_sum_strings_counterexample:
  "fee_sums (utc_clock 1600000000000000) [settled_at 17592186044416999 1599999000]
     = (17592186044416999, 17592186044416999, 17592186044416999) \<and>
   feereport (rpc_of [] (constant_listing []) [settled_at 17592186044416999 1599999000]) ''02aa''
       (utc_clock 1600000000000000)
     = Inr \<lparr>channel_fees = [], day_fee_sum = ''17592186044417'',
            week_fee_sum = ''17592186044417'', month_fee_sum = ''17592186044417''\<rparr> \<and>
   str_int (17592186044416999 sdiv 1000) = ''17592186044416''"
proof -
  have "feereport (rpc_of [] (constant_listing []) [settled_at 17592186044416999 1599999000]) ''02aa''
       (utc_clock 1600000000000000)
     = Inr \<lparr>channel_fees = [], day_fee_sum = ''17592186044417'',
            week_fee_sum = ''17592186044417'', month_fee_sum = ''17592186044417''\<rparr>"
    by (rule feereport_Inr [where chs = "[]" and fwds = "[settled_at 17592186044416999 1599999000]"
          and d = 17592186044416999 and w = 17592186044416999 and m = 17592186044416999])
       (simp_all add: rpc_of_simps fee_sums_utc_single sat_str_large_sum)
  moreover have "str_int (17592186044416999 sdiv 1000) = ''17592186044416''"
    by (simp add: sdiv_1000 str_int_def str_nat.simps digit_char_def)
  ultimately show ?thesis by (simp add: fee_sums_utc_single)
qed

text \<open>
  C3, amended: whenever the report is returned, each of the three sum strings is the decimal
  string of its millisatoshi total divided by 1000 and truncated towards zero, provided the
  total is below \<open>2 ^ 44 * 1000 = 17592186044416000\<close> in absolute value; in particular a total
  of 1999 millisatoshi gives the string \<^verbatim>\<open>1\<close>.
\<close>

theorem fee_sum_strings_truncated:
  assumes "feereport rpc our_nodeid clk = Inr rep" and "listforwards rpc = Inr fwds"
    and "fee_sums clk fwds = (d, w, m)"
  shows "(\<bar>d\<bar> < 17592186044416000 \<longrightarrow> day_fee_sum rep = str_int (d sdiv 1000)) \<and>
         (\<bar>w\<bar> < 17592186044416000 \<longrightarrow> week_fee_sum rep = str_int (w sdiv 1000)) \<and>
         (\<bar>m\<bar> < 17592186044416000 \<longrightarrow> month_fee_sum rep = str_int (m sdiv 1000)) \<and>
         sat_str 1999 = Inr ''1''"
proof -
  from assms(1) obtain fwds' d' w' m' where r: "listforwards rpc = Inr fwds'"
    "fee_sums clk fwds' = (d', w', m')" "sat_str d' = Inr (day_fee_sum rep)"
    "sat_str w' = Inr (week_fee_sum rep)" "sat_str m' = Inr (month_fee_sum rep)"
    by (rule feereport_InrD)
  have "fwds' = fwds" using r(1) assms(2) by simp
  then have e: "d' = d" "w' = w" "m' = m" using r(2) assms(3) by simp_all
  have "sat_str 1999 = Inr (str_int (1999 sdiv 1000))" by (rule sat_str_exact) simp
  then have "sat_str 1999 = Inr ''1''"
    by (simp add: sdiv_1000 str_int_def str_nat.simps digit_char_def)
  then show ?thesis
    using r(3-5) sat_str_exact [of d] sat_str_exact [of w] sat_str_exact [of m]
    by (auto simp: e)
qed

theorem fee_sum_strings_truncated_witness:
  "feereport (rpc_of [] (constant_listing []) [settled_at 1999 1599999000]) ''02aa'' (utc_clock 1600000000000000)
     = Inr \<lparr>channel_fees = [], day_fee_sum = ''1'', week_fee_sum = ''1'', month_fee_sum = ''1''\<rparr>"
proof -
  have s: "sat_str 1999 = Inr (str_int (1999 sdiv 1000))" by (rule sat_str_exact) simp
  have run: "feereport (rpc_of [] (constant_listing []) [settled_at 1999 1599999000]) ''02aa'' (utc_clock 1600000000000000)
     = Inr \<lparr>channel_fees = [], day_fee_sum = str_int (1999 sdiv 1000),
            week_fee_sum = str_int (1999 sdiv 1000), month_fee_sum = str_int (1999 sdiv 1000)\<rparr>"
    by (rule feereport_Inr [where chs = "[]" and fwds = "[settled_at 1999 1599999000]"
          and d = 1999 and w = 1999 and m = 1999])
       (simp_all only: rpc_of_simps fee_sums_utc_single s channel_loop.simps)
  have lf: "listforwards (rpc_of [] (constant_listing []) [settled_at 1999 1599999000]) = Inr [settled_at 1999 1599999000]"
    by (simp add: rpc_of_simps)
  have fs: "fee_sums (utc_clock 1600000000000000) [settled_at 1999 1599999000] = (1999, 1999, 1999)"
    by (rule fee_sums_utc_single)
  have one: "str_int 1 = ''1''" by (simp add: str_int_def str_nat.simps digit_char_def)
  show ?thesis
    using fee_sum_strings_truncated [OF run lf fs] run
    by (simp add: sdiv_1000 one)
qed

subsection \<open>The fee rate\<close>

lemma round_div_million:
  assumes s0: "0 \<le> s" and sb: "s < 67108864000000"
  shows "0 \<le> round_double (of_int s / 1000000)"
    and "round_double (of_int s / 1000000) < 2 ^ 1024"
    and "round_half_even (round_double (of_int s / 1000000) * 100000000) = 100 * s"
proof -
  define x :: rat where "x = of_int s / 1000000"
  have x0: "0 \<le> x" using s0 by (simp add: x_def)
  show nn: "0 \<le> round_double (of_int s / 1000000)"
    using x0 unfolding x_def by (rule round_double_nonneg)
  have "(of_int s :: rat) < of_int 67108864000000" using sb by (simp only: of_int_less_iff)
  then have xb: "x < power_int 2 26" by (simp add: x_def)
  have err: "\<bar>round_double x - x\<bar> \<le> 1 / 268435456"
  proof (cases "x = 0")
    case True
    then show ?thesis by (simp add: round_double_def)
  next
    case False
    then have "0 < x" using x0 by simp
    from round_double_error_below [OF this xb] show ?thesis by simp
  qed
  have e1: "round_double x - x \<le> 1 / 268435456" and e2: "x - round_double x \<le> 1 / 268435456"
    using err by (simp_all only: abs_le_iff minus_diff_eq)
  have xb': "x < 67108864" using xb by simp
  have "round_double x < 67108865" using e1 xb' by linarith
  then show "round_double (of_int s / 1000000) < 2 ^ 1024" by (simp add: x_def)
  have "x * 100000000 = of_int (100 * s)" by (simp add: x_def)
  then have "round_double x * 100000000 - of_int (100 * s) = (round_double x - x) * 100000000"
    by (simp only: left_diff_distrib)
  moreover have "(round_double x - x) * 100000000 < 1 / 2"
  proof -
    have "(round_double x - x) * 100000000 \<le> 1 / 268435456 * 100000000"
      using e1 by (rule mult_right_mono) simp
    then show ?thesis by simp
  qed
  moreover have "- ((round_double x - x) * 100000000) < 1 / 2"
  proof -
    have "(x - round_double x) * 100000000 \<le> 1 / 268435456 * 100000000"
      using e2 by (rule mult_right_mono) simp
    moreover have "- ((round_double x - x) * 100000000) = (x - round_double x) * 100000000"
      by (simp only: minus_mult_left minus_diff_eq)
    ultimately show ?thesis by simp
  qed
  ultimately have "\<bar>round_double x * 100000000 - of_int (100 * s)\<bar> < 1 / 2"
    by (simp only: abs_less_iff simp_thms)
  then show "round_half_even (round_double (of_int s / 1000000) * 100000000) = 100 * s"
    unfolding x_def by (rule rhe_unique)
qed

subsection \<open>Reading a formatted float back\<close>

lemma split_point_digits:
  "split_on CHR ''.'' (sign @ str_nat a @ ''.'' @ digits_fixed w b) =
     (if CHR ''.'' \<in> set sign then split_on CHR ''.'' (sign @ str_nat a @ ''.'' @ digits_fixed w b)
      else [sign @ str_nat a, digits_fixed w b])"
proof (cases "CHR ''.'' \<in> set sign")
  case True
  then show ?thesis by simp
next
  case False
  have 1: "CHR ''.'' \<notin> set (sign @ str_nat a)" using False str_nat_chars [of "CHR ''.''" a] by auto
  have 2: "CHR ''.'' \<notin> set (digits_fixed w b)" using digits_fixed_chars [of "CHR ''.''" w b] by auto
  have "split_on CHR ''.'' ((sign @ str_nat a) @ CHR ''.'' # digits_fixed w b) =
      (sign @ str_nat a) # split_on CHR ''.'' (digits_fixed w b)"
    using 1 by (rule split_on_first)
  then show ?thesis using False by (simp add: split_on_absent [OF 2])
qed

lemma unsigned_decimal_digits:
  "unsigned_decimal_value (str_nat a @ ''.'' @ digits_fixed 8 b) =
     Some (of_nat a + of_nat (b mod 100000000) / 100000000)"
  using split_point_digits [of "[]" a 8 b]
  by (simp add: unsigned_decimal_value_def digits_value_str_nat digits_value_fixed length_digits_fixed)

lemma div_mod_rat: "(of_nat (k div 100000000) :: rat) + of_nat (k mod 100000000) / 100000000 = of_nat k / 100000000"
proof -
  have "(of_nat k :: rat) = of_nat (k div 100000000 * 100000000 + k mod 100000000)" by simp
  also have "\<dots> = of_nat (k div 100000000) * 100000000 + of_nat (k mod 100000000)"
    by (simp only: of_nat_add of_nat_mult of_nat_numeral)
  finally show ?thesis by (simp add: add_divide_distrib)
qed

lemma rhe_nonneg: "0 \<le> x \<Longrightarrow> 0 \<le> round_half_even x"
  using rhe_mono [of 0 x] rhe_of_int [of 0] by simp

lemma decimals_format_8f: "decimals (format_8f x) = Some 8"
proof -
  define k where "k = nat (round_half_even (\<bar>x\<bar> * 100000000))"
  have "decimals ((if x < 0 then ''-'' else '''') @ str_nat (k div 100000000) @ ''.''
           @ digits_fixed 8 (k mod 100000000)) = Some 8"
    using split_point_digits [of "if x < 0 then ''-'' else ''''" "k div 100000000" 8 "k mod 100000000"]
    by (simp add: decimals_def length_digits_fixed)
  then show ?thesis by (simp add: format_8f_def Let_def k_def)
qed

lemma decimal_value_format_8f:
  "decimal_value (format_8f x) =
     Some ((if x < 0 then - 1 else 1) * of_int (round_half_even (\<bar>x\<bar> * 100000000)) / 100000000)"
proof -
  define k where "k = nat (round_half_even (\<bar>x\<bar> * 100000000))"
  have "0 \<le> round_half_even (\<bar>x\<bar> * 100000000)" by (rule rhe_nonneg) simp
  then have kk: "(of_int (round_half_even (\<bar>x\<bar> * 100000000)) :: rat) = of_nat k"
    by (simp add: k_def)
  define body where "body = str_nat (k div 100000000) @ ''.'' @ digits_fixed 8 (k mod 100000000)"
  have u: "unsigned_decimal_value body = Some (of_nat k / 100000000)"
    unfolding body_def by (simp only: unsigned_decimal_digits mod_mod_trivial div_mod_rat)
  obtain c cs where s: "str_nat (k div 100000000) = c # cs"
    using str_nat_not_Nil [of "k div 100000000"] by (cases "str_nat (k div 100000000)") auto
  then have "c \<in> set (str_nat (k div 100000000))" by simp
  then have "c \<noteq> CHR ''-''" using str_nat_chars by blast
  then have h: "body \<noteq> [] \<and> hd body \<noteq> CHR ''-''" by (simp add: body_def s)
  have f: "format_8f x = (if x < 0 then CHR ''-'' # body else body)"
    by (simp add: format_8f_def Let_def k_def body_def)
  show ?thesis
  proof (cases "x < 0")
    case True
    have "decimal_value (CHR ''-'' # body) = Some (- (of_nat k / 100000000))"
      by (simp add: decimal_value_def u)
    then show ?thesis unfolding f kk using True by simp
  next
    case False
    have "decimal_value body = Some (of_nat k / 100000000)"
      using h by (simp add: decimal_value_def u)
    then show ?thesis unfolding f kk using False by simp
  qed
qed

lemma format_8f_digits:
  assumes "0 \<le> k" and "round_half_even (\<bar>x\<bar> * 100000000) = k"
  shows "format_8f x = (if x < 0 then ''-'' else '''') @ str_nat (nat k div 100000000) @ ''.''
           @ digits_fixed 8 (nat k mod 100000000)"
  by (simp add: format_8f_def assms(2) Let_def)

subsection \<open>The channel loops\<close>

lemma detail_loop_find:
  "detail_loop our_nodeid ch ds acc =
     (case find (\<lambda>d. source d = our_nodeid) ds of
        None \<Rightarrow> Inr acc
      | Some d \<Rightarrow> (case fee_record ch d of Inl e \<Rightarrow> Inl e | Inr r \<Rightarrow> Inr (acc @ [r])))"
  by (induction ds) simp_all

lemma channel_loop_append:
  "channel_loop rpc our_nodeid (xs @ ys) acc =
     (case channel_loop rpc our_nodeid xs acc of
        Inl e \<Rightarrow> Inl e
      | Inr acc' \<Rightarrow> channel_loop rpc our_nodeid ys acc')"
  by (induction xs arbitrary: acc) (simp_all split: sum.splits)

lemma channel_loop_skip:
  assumes "listchannels rpc (short_channel_id ch) = Inr ds"
    and "\<forall>d\<in>set ds. source d \<noteq> our_nodeid"
  shows "channel_loop rpc our_nodeid (pre @ ch # post) acc = channel_loop rpc our_nodeid (pre @ post) acc"
proof -
  have "find (\<lambda>d. source d = our_nodeid) ds = None" using assms(2) by (simp add: find_None_iff)
  then have h: "channel_loop rpc our_nodeid (ch # post) acc' = channel_loop rpc our_nodeid post acc'" for acc'
    by (simp add: assms(1) detail_loop_find)
  show ?thesis
    by (cases "channel_loop rpc our_nodeid pre acc")
       (simp_all add: channel_loop_append h del: channel_loop.simps)
qed

lemma channel_loop_Cons_Inr:
  assumes "channel_loop rpc our_nodeid (ch # rest) acc = Inr recs"
  obtains mid where "channel_loop rpc our_nodeid rest mid = Inr recs"
    and "mid = acc \<and> own_policy rpc our_nodeid ch = None \<or>
         (\<exists>d r. own_policy rpc our_nodeid ch = Some d \<and> fee_record ch d = Inr r \<and> mid = acc @ [r])"
proof -
  obtain ds where 1: "listchannels rpc (short_channel_id ch) = Inr ds"
    using assms by (cases "listchannels rpc (short_channel_id ch)") simp_all
  obtain mid where 2: "detail_loop our_nodeid ch ds acc = Inr mid"
    using assms 1 by (cases "detail_loop our_nodeid ch ds acc") simp_all
  have 3: "channel_loop rpc our_nodeid rest mid = Inr recs" using assms 1 2 by simp
  have p: "own_policy rpc our_nodeid ch = find (\<lambda>d. source d = our_nodeid) ds"
    by (simp add: own_policy_def 1)
  show ?thesis
  proof (cases "own_policy rpc our_nodeid ch")
    case None
    then have "mid = acc" using 2 p by (simp add: detail_loop_find)
    then show ?thesis using that [OF 3] None by simp
  next
    case (Some d)
    then obtain r where "fee_record ch d = Inr r" and "mid = acc @ [r]"
      using 2 p by (cases "fee_record ch d") (simp_all add: detail_loop_find)
    then show ?thesis using that [OF 3] Some by simp
  qed
qed

lemma channel_loop_records:
  "channel_loop rpc our_nodeid chs acc = Inr recs \<Longrightarrow>
     \<exists>new. recs = acc @ new \<and> length new \<le> length chs \<and>
       (\<forall>r\<in>set new. \<exists>ch\<in>set chs. \<exists>d.
           own_policy rpc our_nodeid ch = Some d \<and> fee_record ch d = Inr r)"
proof (induction chs arbitrary: acc)
  case Nil
  then show ?case by simp
next
  case (Cons ch rest)
  from Cons.prems obtain mid where m: "channel_loop rpc our_nodeid rest mid = Inr recs"
    and c: "mid = acc \<and> own_policy rpc our_nodeid ch = None \<or>
         (\<exists>d r. own_policy rpc our_nodeid ch = Some d \<and> fee_record ch d = Inr r \<and> mid = acc @ [r])"
    by (rule channel_loop_Cons_Inr)
  from Cons.IH [OF m] obtain new where n: "recs = mid @ new" "length new \<le> length rest"
    "\<forall>r\<in>set new. \<exists>ch\<in>set rest. \<exists>d. own_policy rpc our_nodeid ch = Some d \<and> fee_record ch d = Inr r"
    by blast
  from c show ?case
  proof
    assume "mid = acc \<and> own_policy rpc our_nodeid ch = None"
    then show ?thesis using n by (intro exI [of _ new]) auto
  next
    assume "\<exists>d r. own_policy rpc our_nodeid ch = Some d \<and> fee_record ch d = Inr r \<and> mid = acc @ [r]"
    then obtain d r where "own_policy rpc our_nodeid ch = Some d" "fee_record ch d = Inr r" "mid = acc @ [r]"
      by blast
    then show ?thesis using n by (intro exI [of _ "r # new"]) auto
  qed
qed

lemma feereport_funds:
  assumes "channel_loop rpc our_nodeid chs' [] = channel_loop rpc our_nodeid chs []"
  shows "feereport (rpc\<lparr>listfunds := Inr chs'\<rparr>) our_nodeid clk =
         feereport (rpc\<lparr>listfunds := Inr chs\<rparr>) our_nodeid clk"
proof -
  have c: "channel_loop (rpc\<lparr>listfunds := x\<rparr>) our_nodeid xs [] =
        channel_loop rpc our_nodeid xs []" for xs x
    by (rule channel_loop_rpc) simp
  show ?thesis
    by (cases "channel_loop rpc our_nodeid chs []") (simp_all add: feereport_def c assms)
qed

subsection \<open>The record of one channel\<close>

lemma true_div_million:
  assumes "\<bar>n\<bar> < 67108864000000"
  shows "true_div n 1000000 = Inr (round_double (of_int n / 1000000))"
    and "round_half_even (\<bar>round_double (of_int n / 1000000)\<bar> * 100000000) = 100 * \<bar>n\<bar>"
    and "round_double (of_int n / 1000000) < 0 \<longleftrightarrow> n < 0"
proof -
  define s where "s = \<bar>n\<bar>"
  have s: "0 \<le> s" "s < 67108864000000" using assms by (simp_all add: s_def)
  define y where "y = round_double (of_int s / 1000000)"
  note b = round_div_million [OF s, folded y_def]
  have yn: "round_double (of_int n / 1000000) = (if 0 \<le> n then y else - y)"
  proof (cases "0 \<le> n")
    case True
    then show ?thesis by (simp add: y_def s_def)
  next
    case False
    then have "(of_int n :: rat) / 1000000 = - (of_int s / 1000000)" by (simp add: s_def)
    then show ?thesis using False by (simp only: round_double_neg y_def if_False)
  qed
  have ay: "\<bar>round_double (of_int n / 1000000)\<bar> = y" using b(1) by (simp add: yn)
  show "true_div n 1000000 = Inr (round_double (of_int n / 1000000))"
    using b(2) by (simp add: true_div_def Let_def ay)
  show "round_half_even (\<bar>round_double (of_int n / 1000000)\<bar> * 100000000) = 100 * \<bar>n\<bar>"
    using b(3) by (simp only: ay s_def)
  have "y \<noteq> 0" if "n \<noteq> 0"
  proof
    assume "y = 0"
    then have "100 * s = 0" using b(3) rhe_of_int [of 0] by simp
    then show False using that by (simp add: s_def)
  qed
  then show "round_double (of_int n / 1000000) < 0 \<longleftrightarrow> n < 0"
    using b(1) by (auto simp: yn)
qed

lemma fee_record_InrD:
  assumes "fee_record ch d = Inr r"
  obtains fo where "funding_output_str ch = Inr fo"
    and "r = \<lparr>chan_point = funding_txid ch @ '':'' @ fo,
               base_fee_msat = str_int (base_fee_millisatoshi d),
               fee_per_mil = str_int (fee_per_millionth d),
               fee_rate = format_8f (round_double (of_int (fee_per_millionth d) / 1000000))\<rparr>"
proof -
  obtain fo where 1: "funding_output_str ch = Inr fo"
    using assms by (cases "funding_output_str ch") (simp_all add: fee_record_def)
  obtain x where 2: "true_div (fee_per_millionth d) 1000000 = Inr x"
    using assms 1 by (cases "true_div (fee_per_millionth d) 1000000") (simp_all add: fee_record_def)
  then have "x = round_double (of_int (fee_per_millionth d) / 1000000)"
    by (auto simp: true_div_def Let_def split: if_splits)
  then show ?thesis using that [OF 1] assms 1 2 by (simp add: fee_record_def)
qed

lemma fee_record_small:
  assumes "funding_output_str ch = Inr fo" and "\<bar>fee_per_millionth d\<bar> < 67108864000000"
  shows "fee_record ch d =
     Inr \<lparr>chan_point = funding_txid ch @ '':'' @ fo,
          base_fee_msat = str_int (base_fee_millisatoshi d),
          fee_per_mil = str_int (fee_per_millionth d),
          fee_rate = format_8f (round_double (of_int (fee_per_millionth d) / 1000000))\<rparr>"
  by (simp add: fee_record_def assms(1) true_div_million(1) [OF assms(2)])

lemma funding_output_str_cases:
  "funding_output_str ch = Inr fo \<Longrightarrow>
     fo = (case funding_output ch of Some n \<Rightarrow> str_int n
           | None \<Rightarrow> split_on CHR ''x'' (short_channel_id ch) ! 2) \<and>
     (funding_output ch = None \<longrightarrow> 2 < length (split_on CHR ''x'' (short_channel_id ch)))"
  by (auto simp: funding_output_str_def subscript_def split: option.splits if_splits)

lemma digits_fixed_8:
  "digits_fixed 8 n =
     [digit_char (n div 10 div 10 div 10 div 10 div 10 div 10 div 10 mod 10),
      digit_char (n div 10 div 10 div 10 div 10 div 10 div 10 mod 10),
      digit_char (n div 10 div 10 div 10 div 10 div 10 mod 10),
      digit_char (n div 10 div 10 div 10 div 10 mod 10),
      digit_char (n div 10 div 10 div 10 mod 10),
      digit_char (n div 10 div 10 mod 10),
      digit_char (n div 10 mod 10), digit_char (n mod 10)]"
proof -
  have "(8::nat) = Suc (Suc (Suc (Suc (Suc (Suc (Suc (Suc 0)))))))" by simp
  then show ?thesis by (simp only: digits_fixed.simps append.simps)
qed

lemma funding_output_str_example: "funding_output_str example_channel = Inr ''0''"
  by (simp add: funding_output_str_def example_channel_def subscript_def)

lemma str_int_examples:
  "str_int 1000 = ''1000''" "str_int 100 = ''100''" "str_nat 0 = ''0''"
  by (simp_all add: str_int_def str_nat.simps digit_char_def)

lemma format_rate_100: "format_8f (round_double (1 / 10000)) = ''0.00010000''"
proof -
  have k: "round_half_even (\<bar>round_double (1 / 10000)\<bar> * 100000000) = 10000"
    using true_div_million(2) [of 100] by simp
  have sg: "\<not> round_double (1 / 10000) < 0"
    using true_div_million(3) [of 100] by simp
  have "format_8f (round_double (1 / 10000)) =
      (if round_double (1 / 10000) < 0 then ''-'' else '''') @ str_nat (nat 10000 div 100000000) @ ''.''
           @ digits_fixed 8 (nat 10000 mod 100000000)"
    by (rule format_8f_digits [OF _ k]) simp
  also have "\<dots> = str_nat 0 @ ''.'' @ digits_fixed 8 10000"
    using sg by simp
  also have "\<dots> = ''0.00010000''"
    by (simp add: str_int_examples digits_fixed_8 digit_char_def)
  finally show ?thesis .
qed

lemma example_fields:
  "funding_txid example_channel = ''abcd''"
  "base_fee_millisatoshi (policy_of src base ppm) = base"
  "fee_per_millionth (policy_of src base ppm) = ppm"
  "source (policy_of src base ppm) = src"
  by (simp_all add: example_channel_def policy_of_def)

lemma fee_record_example:
  "fee_record example_channel (policy_of src 1000 100) =
     Inr \<lparr>chan_point = ''abcd:0'', base_fee_msat = ''1000'', fee_per_mil = ''100'',
          fee_rate = ''0.00010000''\<rparr>"
proof -
  have b: "\<bar>fee_per_millionth (policy_of src 1000 100)\<bar> < 67108864000000"
    by (simp add: example_fields)
  show ?thesis
    by (simp add: fee_record_small [OF funding_output_str_example b] example_fields
        str_int_examples format_rate_100)
qed

section \<open>The claims about the channel fees\<close>

text \<open>
  C1: when \<^verbatim>\<open>listfunds\<close> returns exactly one channel, with short channel id
  \<^verbatim>\<open>700000x1x0\<close>, funding transaction \<^verbatim>\<open>abcd\<close> and no \<^verbatim>\<open>funding_output\<close>, and
  \<^verbatim>\<open>listchannels\<close> returns for that id one entry whose source is our node, with base fee
  1000 and proportional fee 100, then the loop over the channels builds exactly the record
  \<^verbatim>\<open>{chan_point: "abcd:0", base_fee_msat: "1000", fee_per_mil: "100", fee_rate: "0.00010000"}\<close>,
  and every report that \<^verbatim>\<open>feereport\<close> returns has exactly this list of channel fees.
\<close>

theorem end_to_end_channel_fees:
  assumes "listfunds rpc =
      Inr [\<lparr>short_channel_id = ''700000x1x0'', funding_txid = ''abcd'', funding_output = None\<rparr>]"
    and "listchannels rpc ''700000x1x0'' =
      Inr [\<lparr>source = our_nodeid, base_fee_millisatoshi = 1000, fee_per_millionth = 100\<rparr>]"
  shows "channel_loop rpc our_nodeid
           [\<lparr>short_channel_id = ''700000x1x0'', funding_txid = ''abcd'', funding_output = None\<rparr>] []
         = Inr [\<lparr>chan_point = ''abcd:0'', base_fee_msat = ''1000'', fee_per_mil = ''100'',
                 fee_rate = ''0.00010000''\<rparr>] \<and>
         (\<forall>rep. feereport rpc our_nodeid clk = Inr rep \<longrightarrow>
            channel_fees rep = [\<lparr>chan_point = ''abcd:0'', base_fee_msat = ''1000'',
                                 fee_per_mil = ''100'', fee_rate = ''0.00010000''\<rparr>])"
proof -
  have r: "fee_record \<lparr>short_channel_id = ''700000x1x0'', funding_txid = ''abcd'', funding_output = None\<rparr>
       \<lparr>source = our_nodeid, base_fee_millisatoshi = 1000, fee_per_millionth = 100\<rparr> =
     Inr \<lparr>chan_point = ''abcd:0'', base_fee_msat = ''1000'', fee_per_mil = ''100'',
          fee_rate = ''0.00010000''\<rparr>"
    using fee_record_example [of our_nodeid] by (simp only: example_channel_def policy_of_def)
  have loop: "channel_loop rpc our_nodeid
           [\<lparr>short_channel_id = ''700000x1x0'', funding_txid = ''abcd'', funding_output = None\<rparr>] []
         = Inr [\<lparr>chan_point = ''abcd:0'', base_fee_msat = ''1000'', fee_per_mil = ''100'',
                 fee_rate = ''0.00010000''\<rparr>]"
    by (simp add: assms(2) r)
  have "channel_fees rep = [\<lparr>chan_point = ''abcd:0'', base_fee_msat = ''1000'',
                                 fee_per_mil = ''100'', fee_rate = ''0.00010000''\<rparr>]"
    if "feereport rpc our_nodeid clk = Inr rep" for rep
  proof -
    from that obtain chs where "listfunds rpc = Inr chs"
      and "channel_loop rpc our_nodeid chs [] = Inr (channel_fees rep)"
      by (rule feereport_InrD)
    then show ?thesis using assms(1) loop by simp
  qed
  then show ?thesis using loop by blast
qed

theorem end_to_end_channel_fees_witness:
  "feereport (rpc_of [example_channel] (constant_listing [policy_of ''02aa'' 1000 100]) [])
     ''02aa'' (utc_clock 1600000000000000)
   = Inr \<lparr>channel_fees = [\<lparr>chan_point = ''abcd:0'', base_fee_msat = ''1000'',
                              fee_per_mil = ''100'', fee_rate = ''0.00010000''\<rparr>],
          day_fee_sum = ''0'', week_fee_sum = ''0'', month_fee_sum = ''0''\<rparr>"
proof -
  let ?rpc = "rpc_of [example_channel] (constant_listing [policy_of ''02aa'' 1000 100]) []"
  have a: "listfunds ?rpc =
      Inr [\<lparr>short_channel_id = ''700000x1x0'', funding_txid = ''abcd'', funding_output = None\<rparr>]"
    by (simp add: rpc_of_simps example_channel_def)
  have b: "listchannels ?rpc ''700000x1x0'' =
      Inr [\<lparr>source = ''02aa'', base_fee_millisatoshi = 1000, fee_per_millionth = 100\<rparr>]"
    by (simp add: rpc_of_simps constant_listing_def policy_of_def)
  note t = end_to_end_channel_fees [OF a b]
  have z: "sat_str 0 = Inr ''0''"
    using sat_str_exact [of 0] by (simp add: sdiv_1000 str_int_def str_int_examples)
  have "feereport ?rpc ''02aa'' (utc_clock 1600000000000000)
   = Inr \<lparr>channel_fees = [\<lparr>chan_point = ''abcd:0'', base_fee_msat = ''1000'',
                              fee_per_mil = ''100'', fee_rate = ''0.00010000''\<rparr>],
          day_fee_sum = ''0'', week_fee_sum = ''0'', month_fee_sum = ''0''\<rparr>"
    by (rule feereport_Inr [OF a t [THEN conjunct1], where fwds = "[]" and d = 0 and w = 0 and m = 0])
       (simp_all add: rpc_of_simps fee_sums_def z)
  then show ?thesis .
qed

text \<open>
  C6: a funded channel whose policy listing is returned and has no entry with our node as
  source produces no record and no error: its inner loop returns the list of records
  unchanged, and the loop over the channels, and the whole report, are those of the same
  node without this channel, so the other channels are processed as usual.
\<close>

theorem channel_without_own_policy_skipped:
  assumes "listchannels rpc (short_channel_id ch) = Inr ds"
    and "\<forall>d\<in>set ds. source d \<noteq> our_nodeid"
  shows "detail_loop our_nodeid ch ds acc = Inr acc \<and>
         channel_loop rpc our_nodeid (pre @ ch # post) acc = channel_loop rpc our_nodeid (pre @ post) acc \<and>
         feereport (rpc\<lparr>listfunds := Inr (pre @ ch # post)\<rparr>) our_nodeid clk =
         feereport (rpc\<lparr>listfunds := Inr (pre @ post)\<rparr>) our_nodeid clk"
proof -
  have "find (\<lambda>d. source d = our_nodeid) ds = None" using assms(2) by (simp add: find_None_iff)
  then have a: "detail_loop our_nodeid ch ds acc = Inr acc" by (simp add: detail_loop_find)
  have b: "channel_loop rpc our_nodeid (pre @ ch # post) acc' = channel_loop rpc our_nodeid (pre @ post) acc'"
    for acc' using assms by (rule channel_loop_skip)
  show ?thesis
    by (intro conjI) (rule a, rule b, rule feereport_funds [OF b])
qed

theorem channel_without_own_policy_skipped_witness:
  "channel_loop (rpc_of [] (constant_listing [policy_of ''03bb'' 1 10]) []) ''02aa''
     ([] @ example_channel # []) [] = Inr []"
proof -
  have a: "listchannels (rpc_of [] (constant_listing [policy_of ''03bb'' 1 10]) [])
      (short_channel_id example_channel) = Inr [policy_of ''03bb'' 1 10]"
    by (simp add: rpc_of_simps constant_listing_def)
  have b: "\<forall>d\<in>set [policy_of ''03bb'' 1 10]. source d \<noteq> ''02aa''"
    by (simp add: example_fields)
  have "channel_loop (rpc_of [] (constant_listing [policy_of ''03bb'' 1 10]) []) ''02aa''
     ([] @ example_channel # []) [] =
     channel_loop (rpc_of [] (constant_listing [policy_of ''03bb'' 1 10]) []) ''02aa'' ([] @ []) []"
    by (rule channel_without_own_policy_skipped [OF a b, THEN conjunct2, THEN conjunct1])
  then show ?thesis by simp
qed

text \<open>
  C10: a funded channel contributes at most one record. The inner loop appends the record of
  the first entry of the listing whose source is our node and stops there: the entries listed
  after it, whether their source is our node or not, play no part. So the loop over the
  channels appends at most one record for each channel.
\<close>

theorem at_most_one_record_per_channel:
  "detail_loop our_nodeid ch ds acc =
     (case find (\<lambda>d. source d = our_nodeid) ds of
        None \<Rightarrow> Inr acc
      | Some d \<Rightarrow> (case fee_record ch d of Inl e \<Rightarrow> Inl e | Inr r \<Rightarrow> Inr (acc @ [r]))) \<and>
   ((\<forall>d\<in>set skipped. source d \<noteq> our_nodeid) \<and> source first = our_nodeid \<longrightarrow>
      detail_loop our_nodeid ch (skipped @ first # later) acc = detail_loop our_nodeid ch [first] acc) \<and>
   (\<forall>recs. channel_loop rpc our_nodeid chs acc = Inr recs \<longrightarrow>
      (\<exists>new. recs = acc @ new \<and> length new \<le> length chs))"
proof -
  have "detail_loop our_nodeid ch (skipped @ first # later) acc = detail_loop our_nodeid ch [first] acc"
    if "\<forall>d\<in>set skipped. source d \<noteq> our_nodeid" and "source first = our_nodeid"
    using that by (induction skipped) simp_all
  moreover have "\<exists>new. recs = acc @ new \<and> length new \<le> length chs"
    if "channel_loop rpc our_nodeid chs acc = Inr recs" for recs
    using channel_loop_records [OF that] by blast
  ultimately show ?thesis using detail_loop_find [of our_nodeid ch ds acc] by blast
qed

theorem at_most_one_record_per_channel_witness:
  "channel_loop (rpc_of [] (constant_listing
       [policy_of ''03bb'' 1 10, policy_of ''02aa'' 1000 100, policy_of ''02aa'' 5 7]) [])
     ''02aa'' [example_channel] []
   = Inr [\<lparr>chan_point = ''abcd:0'', base_fee_msat = ''1000'', fee_per_mil = ''100'',
            fee_rate = ''0.00010000''\<rparr>]"
proof -
  have s: "\<forall>d\<in>set [policy_of ''03bb'' 1 10]. source d \<noteq> ''02aa''"
    and f: "source (policy_of ''02aa'' 1000 100) = ''02aa''"
    by (simp_all add: example_fields)
  have "detail_loop ''02aa'' example_channel
      ([policy_of ''03bb'' 1 10] @ policy_of ''02aa'' 1000 100 # [policy_of ''02aa'' 5 7]) [] =
      detail_loop ''02aa'' example_channel [policy_of ''02aa'' 1000 100] []"
    using at_most_one_record_per_channel
      [of "''02aa''" example_channel _ "[]" "[policy_of ''03bb'' 1 10]" "policy_of ''02aa'' 1000 100"
         "[policy_of ''02aa'' 5 7]"]
      s f by blast
  then have "detail_loop ''02aa'' example_channel
      [policy_of ''03bb'' 1 10, policy_of ''02aa'' 1000 100, policy_of ''02aa'' 5 7] [] =
      Inr [\<lparr>chan_point = ''abcd:0'', base_fee_msat = ''1000'', fee_per_mil = ''100'',
            fee_rate = ''0.00010000''\<rparr>]"
    by (simp add: example_fields fee_record_example)
  then show ?thesis
    by (simp add: rpc_of_simps constant_listing_def del: detail_loop.simps)
qed

lemma feereport_records:
  assumes "feereport rpc our_nodeid clk = Inr rep" and "r \<in> set (channel_fees rep)"
  obtains chs ch d where "listfunds rpc = Inr chs" and "ch \<in> set chs"
    and "own_policy rpc our_nodeid ch = Some d" and "fee_record ch d = Inr r"
proof -
  from assms(1) obtain chs where 1: "listfunds rpc = Inr chs"
    and 2: "channel_loop rpc our_nodeid chs [] = Inr (channel_fees rep)"
    by (rule feereport_InrD)
  from channel_loop_records [OF 2] assms(2)
  obtain ch d where "ch \<in> set chs" "own_policy rpc our_nodeid ch = Some d" "fee_record ch d = Inr r"
    by auto
  then show ?thesis using that [OF 1] by blast
qed

lemma example_report:
  "feereport (rpc_of [example_channel] (constant_listing [policy_of ''02aa'' 1000 100]) [])
     ''02aa'' (utc_clock 1600000000000000)
   = Inr \<lparr>channel_fees = [\<lparr>chan_point = ''abcd:0'', base_fee_msat = ''1000'',
                              fee_per_mil = ''100'', fee_rate = ''0.00010000''\<rparr>],
          day_fee_sum = ''0'', week_fee_sum = ''0'', month_fee_sum = ''0''\<rparr>"
proof -
  have z: "sat_str 0 = Inr ''0''"
    using sat_str_exact [of 0] by (simp add: sdiv_1000 str_int_def str_int_examples)
  show ?thesis
    by (rule feereport_Inr [where chs = "[example_channel]" and fwds = "[]"
          and d = 0 and w = 0 and m = 0])
       (simp_all add: rpc_of_simps fee_sums_def z constant_listing_def example_fields
          fee_record_example)
qed

lemma split_on_three:
  assumes "x \<notin> set a" and "x \<notin> set b" and "x \<notin> set c" and "rest = [] \<or> hd rest = x"
  shows "\<exists>others. split_on x (a @ x # b @ x # c @ rest) = a # b # c # others"
proof -
  have "\<exists>others. split_on x (c @ rest) = c # others"
  proof (cases rest)
    case Nil
    then show ?thesis using split_on_absent [OF assms(3)] by simp
  next
    case (Cons y ys)
    then have "rest = x # ys" using assms(4) by simp
    then show ?thesis using split_on_first [OF assms(3), of ys] by simp
  qed
  then obtain others where "split_on x (c @ rest) = c # others" ..
  then have "split_on x (a @ x # b @ x # c @ rest) = a # b # c # others"
    using split_on_first [OF assms(1), of "b @ x # c @ rest"]
      split_on_first [OF assms(2), of "c @ rest"] by simp
  then show ?thesis ..
qed

lemma channel_loop_own_policy:
  assumes "own_policy rpc our_nodeid ch = Some d" and "fee_record ch d = Inr built"
  shows "channel_loop rpc our_nodeid (ch # rest) acc = channel_loop rpc our_nodeid rest (acc @ [built])"
proof -
  obtain ds where 1: "listchannels rpc (short_channel_id ch) = Inr ds"
    using assms(1) by (cases "listchannels rpc (short_channel_id ch)") (simp_all add: own_policy_def)
  then have "find (\<lambda>d. source d = our_nodeid) ds = Some d"
    using assms(1) by (simp add: own_policy_def)
  then have "detail_loop our_nodeid ch ds acc = Inr (acc @ [built])"
    by (simp add: detail_loop_find assms(2))
  then show ?thesis by (simp add: 1)
qed

lemma fee_record_chan_point:
  assumes "funding_output_str ch = Inr fo" and "true_div (fee_per_millionth d) 1000000 = Inr rate"
  shows "\<exists>built. fee_record ch d = Inr built \<and> chan_point built = funding_txid ch @ '':'' @ fo"
  by (simp add: fee_record_def assms)

lemma indexed_fields:
  "funding_output (indexed_channel n) = Some n"
  "funding_txid (indexed_channel n) = ''abcd''"
  "short_channel_id (indexed_channel n) = ''700000x1x0''"
  by (simp_all add: indexed_channel_def)

lemma own_policy_example:
  "own_policy (rpc_of chs (constant_listing [policy_of ''02aa'' base ppm]) fwds) ''02aa'' ch
     = Some (policy_of ''02aa'' base ppm)"
  by (simp add: own_policy_def rpc_of_simps constant_listing_def example_fields)

text \<open>
  C7: every record of a returned report was built for one of the funded channels, from the
  policy entry of our node in that channel's listing, and its \<^verbatim>\<open>chan_point\<close> is the
  channel's funding transaction id, a colon, and an output index: the channel's
  \<^verbatim>\<open>funding_output\<close> as a decimal string when the channel has this field, and otherwise the
  third of the segments into which the letter x splits the short channel id, which then has
  at least three segments. Such records are indeed built: whenever the fee rate of the policy
  entry can be formed, a channel with an explicit \<^verbatim>\<open>funding_output\<close> \<open>k\<close> gets the output
  index \<^verbatim>\<open>str(k)\<close> and a record whose \<^verbatim>\<open>chan_point\<close> is the funding transaction id, a
  colon and \<^verbatim>\<open>str(k)\<close>; a channel without the field whose short channel id has at least
  three x-delimited segments gets a record with the third segment; and the loop over the
  channels appends the record built from the channel's own policy entry.
\<close>

theorem chan_point_of_every_record:
  "(feereport rpc our_nodeid clk = Inr rep \<and> r \<in> set (channel_fees rep) \<longrightarrow>
      (\<exists>chs ch d. listfunds rpc = Inr chs \<and> ch \<in> set chs \<and>
         own_policy rpc our_nodeid ch = Some d \<and> fee_record ch d = Inr r \<and>
         chan_point r = funding_txid ch @ '':'' @
           (case funding_output ch of
              Some n \<Rightarrow> str_int n
            | None \<Rightarrow> split_on CHR ''x'' (short_channel_id ch) ! 2) \<and>
         (funding_output ch = None \<longrightarrow> 2 < length (split_on CHR ''x'' (short_channel_id ch))))) \<and>
   (true_div (fee_per_millionth detail) 1000000 = Inr rate \<longrightarrow>
      (funding_output channel = Some k \<longrightarrow>
         funding_output_str channel = Inr (str_int k) \<and>
         (\<exists>built. fee_record channel detail = Inr built \<and>
            chan_point built = funding_txid channel @ '':'' @ str_int k)) \<and>
      (funding_output channel = None \<and> 2 < length (split_on CHR ''x'' (short_channel_id channel)) \<longrightarrow>
         funding_output_str channel = Inr (split_on CHR ''x'' (short_channel_id channel) ! 2) \<and>
         (\<exists>built. fee_record channel detail = Inr built \<and>
            chan_point built = funding_txid channel @ '':'' @
              split_on CHR ''x'' (short_channel_id channel) ! 2))) \<and>
   (own_policy rpc our_nodeid channel = Some detail \<and> fee_record channel detail = Inr emitted \<longrightarrow>
      channel_loop rpc our_nodeid (channel # rest) acc =
      channel_loop rpc our_nodeid rest (acc @ [emitted]))"
proof (intro conjI impI)
  assume "feereport rpc our_nodeid clk = Inr rep \<and> r \<in> set (channel_fees rep)"
  then obtain chs ch d where 1: "listfunds rpc = Inr chs" "ch \<in> set chs"
    "own_policy rpc our_nodeid ch = Some d" "fee_record ch d = Inr r"
    by (auto elim: feereport_records)
  from 1(4) obtain fo where fo: "funding_output_str ch = Inr fo"
    and r: "r = \<lparr>chan_point = funding_txid ch @ '':'' @ fo,
               base_fee_msat = str_int (base_fee_millisatoshi d),
               fee_per_mil = str_int (fee_per_millionth d),
               fee_rate = format_8f (round_double (of_int (fee_per_millionth d) / 1000000))\<rparr>"
    by (rule fee_record_InrD)
  from funding_output_str_cases [OF fo]
  have e: "fo = (case funding_output ch of Some n \<Rightarrow> str_int n
           | None \<Rightarrow> split_on CHR ''x'' (short_channel_id ch) ! 2)"
    and l: "funding_output ch = None \<longrightarrow> 2 < length (split_on CHR ''x'' (short_channel_id ch))"
    by simp_all
  have "chan_point r = funding_txid ch @ '':'' @ fo" by (simp add: r)
  then have cp: "chan_point r = funding_txid ch @ '':'' @
             (case funding_output ch of
                Some n \<Rightarrow> str_int n
              | None \<Rightarrow> split_on CHR ''x'' (short_channel_id ch) ! 2)"
    using e by simp
  show "\<exists>chs ch d. listfunds rpc = Inr chs \<and> ch \<in> set chs \<and>
         own_policy rpc our_nodeid ch = Some d \<and> fee_record ch d = Inr r \<and>
         chan_point r = funding_txid ch @ '':'' @
           (case funding_output ch of
              Some n \<Rightarrow> str_int n
            | None \<Rightarrow> split_on CHR ''x'' (short_channel_id ch) ! 2) \<and>
         (funding_output ch = None \<longrightarrow> 2 < length (split_on CHR ''x'' (short_channel_id ch)))"
    by (intro exI [of _ chs] exI [of _ ch] exI [of _ d] conjI)
       (fact 1(1), fact 1(2), fact 1(3), fact 1(4), fact cp, fact l)
next
  assume t: "true_div (fee_per_millionth detail) 1000000 = Inr rate"
    and s: "funding_output channel = Some k"
  show fo: "funding_output_str channel = Inr (str_int k)"
    by (simp add: funding_output_str_def s)
  show "\<exists>built. fee_record channel detail = Inr built \<and>
            chan_point built = funding_txid channel @ '':'' @ str_int k"
    using fo t by (rule fee_record_chan_point)
next
  assume t: "true_div (fee_per_millionth detail) 1000000 = Inr rate"
    and n: "funding_output channel = None \<and> 2 < length (split_on CHR ''x'' (short_channel_id channel))"
  show fo: "funding_output_str channel = Inr (split_on CHR ''x'' (short_channel_id channel) ! 2)"
    using n by (simp add: funding_output_str_def subscript_def)
  show "\<exists>built. fee_record channel detail = Inr built \<and>
            chan_point built = funding_txid channel @ '':'' @
              split_on CHR ''x'' (short_channel_id channel) ! 2"
    using fo t by (rule fee_record_chan_point)
next
  assume "own_policy rpc our_nodeid channel = Some detail \<and> fee_record channel detail = Inr emitted"
  then have p: "own_policy rpc our_nodeid channel = Some detail"
    and e: "fee_record channel detail = Inr emitted" by simp_all
  show "channel_loop rpc our_nodeid (channel # rest) acc =
      channel_loop rpc our_nodeid rest (acc @ [emitted])"
    using p e by (rule channel_loop_own_policy)
qed

theorem chan_point_of_every_record_witness:
  "(\<exists>built.
      feereport (rpc_of [indexed_channel 7] (constant_listing [policy_of ''02aa'' 1000 100]) [])
        ''02aa'' (utc_clock 1600000000000000)
      = Inr \<lparr>channel_fees = [built], day_fee_sum = ''0'', week_fee_sum = ''0'',
             month_fee_sum = ''0''\<rparr> \<and>
      chan_point built = ''abcd:7'' \<and>
      (\<exists>chs ch d.
         listfunds (rpc_of [indexed_channel 7] (constant_listing [policy_of ''02aa'' 1000 100]) [])
           = Inr chs \<and> ch \<in> set chs \<and>
         own_policy (rpc_of [indexed_channel 7] (constant_listing [policy_of ''02aa'' 1000 100]) [])
           ''02aa'' ch = Some d \<and>
         fee_record ch d = Inr built \<and>
         chan_point built = funding_txid ch @ '':'' @
           (case funding_output ch of
              Some n \<Rightarrow> str_int n
            | None \<Rightarrow> split_on CHR ''x'' (short_channel_id ch) ! 2) \<and>
         (funding_output ch = None \<longrightarrow> 2 < length (split_on CHR ''x'' (short_channel_id ch))))) \<and>
   (\<exists>built.
      channel_loop (rpc_of [example_channel] (constant_listing [policy_of ''02aa'' 1000 100]) [])
        ''02aa'' [example_channel] [] = Inr [built] \<and>
      chan_point built = ''abcd:0'')"
proof -
  let ?d = "policy_of ''02aa'' 1000 100"
  let ?rpc7 = "rpc_of [indexed_channel 7] (constant_listing [?d]) []"
  let ?rpc0 = "rpc_of [example_channel] (constant_listing [?d]) []"
  have t: "true_div (fee_per_millionth ?d) 1000000 = Inr (round_double (of_int 100 / 1000000))"
    using true_div_million(1) [of 100] by (simp add: example_fields)
  have seven: "str_int 7 = ''7''" by (simp add: str_int_def str_nat.simps digit_char_def)
  have z: "sat_str 0 = Inr ''0''"
    using sat_str_exact [of 0] by (simp add: sdiv_1000 str_int_def str_int_examples)
  note thm7 = chan_point_of_every_record [where rpc = ?rpc7 and our_nodeid = "''02aa''"
      and detail = ?d and channel = "indexed_channel 7" and k = 7 and rest = "[]" and acc = "[]"
      and clk = "utc_clock 1600000000000000"]
  from thm7 [THEN conjunct2, THEN conjunct1, rule_format, OF t, THEN conjunct1, rule_format,
      OF indexed_fields(1)]
  obtain built where b: "fee_record (indexed_channel 7) ?d = Inr built"
    and cp: "chan_point built = ''abcd:7''"
    by (auto simp: indexed_fields seven)
  have "channel_loop ?rpc7 ''02aa'' [indexed_channel 7] [] = channel_loop ?rpc7 ''02aa'' [] ([] @ [built])"
    by (rule thm7 [THEN conjunct2, THEN conjunct2, rule_format, OF conjI, OF own_policy_example b])
  also have "\<dots> = Inr [built]" by simp
  finally have loop: "channel_loop ?rpc7 ''02aa'' [indexed_channel 7] [] = Inr [built]" .
  have run: "feereport ?rpc7 ''02aa'' (utc_clock 1600000000000000)
      = Inr \<lparr>channel_fees = [built], day_fee_sum = ''0'', week_fee_sum = ''0'',
             month_fee_sum = ''0''\<rparr>"
    by (rule feereport_Inr [where chs = "[indexed_channel 7]" and fwds = "[]"
          and d = 0 and w = 0 and m = 0])
       (simp_all add: rpc_of_simps fee_sums_def z loop del: channel_loop.simps)
  have mem: "built \<in> set (channel_fees \<lparr>channel_fees = [built], day_fee_sum = ''0'',
      week_fee_sum = ''0'', month_fee_sum = ''0''\<rparr>)"
    by simp
  note prov = thm7 [THEN conjunct1, rule_format, OF conjI, OF run mem]
  have first: "\<exists>built.
      feereport ?rpc7 ''02aa'' (utc_clock 1600000000000000)
      = Inr \<lparr>channel_fees = [built], day_fee_sum = ''0'', week_fee_sum = ''0'',
             month_fee_sum = ''0''\<rparr> \<and>
      chan_point built = ''abcd:7'' \<and>
      (\<exists>chs ch d.
         listfunds ?rpc7 = Inr chs \<and> ch \<in> set chs \<and>
         own_policy ?rpc7 ''02aa'' ch = Some d \<and>
         fee_record ch d = Inr built \<and>
         chan_point built = funding_txid ch @ '':'' @
           (case funding_output ch of
              Some n \<Rightarrow> str_int n
            | None \<Rightarrow> split_on CHR ''x'' (short_channel_id ch) ! 2) \<and>
         (funding_output ch = None \<longrightarrow> 2 < length (split_on CHR ''x'' (short_channel_id ch))))"
    by (intro exI [of _ built] conjI) (rule run, rule cp, rule prov)
  note thm0 = chan_point_of_every_record [where rpc = ?rpc0 and our_nodeid = "''02aa''"
      and detail = ?d and channel = example_channel and rest = "[]" and acc = "[]"]
  have n0: "funding_output example_channel = None \<and>
      2 < length (split_on CHR ''x'' (short_channel_id example_channel))"
    by (simp add: example_channel_def)
  from thm0 [THEN conjunct2, THEN conjunct1, rule_format, OF t, THEN conjunct2, rule_format, OF n0]
  obtain built0 where b0: "fee_record example_channel ?d = Inr built0"
    and cp0: "chan_point built0 = ''abcd:0''"
    by (auto simp: example_channel_def)
  have "channel_loop ?rpc0 ''02aa'' [example_channel] [] = channel_loop ?rpc0 ''02aa'' [] ([] @ [built0])"
    by (rule thm0 [THEN conjunct2, THEN conjunct2, rule_format, OF conjI, OF own_policy_example b0])
  also have "\<dots> = Inr [built0]" by simp
  finally have "channel_loop ?rpc0 ''02aa'' [example_channel] [] = Inr [built0]" .
  then have second: "\<exists>built. channel_loop ?rpc0 ''02aa'' [example_channel] [] = Inr [built] \<and>
      chan_point built = ''abcd:0''"
    using cp0 by blast
  from first second show ?thesis by (rule conjI)
qed

text \<open>
  C8 as stated fails: the code splits the short channel id at the letter x, not at colons.
  For the id \<^verbatim>\<open>700000x1x0\<close> the code takes the output index \<^verbatim>\<open>0\<close> although the id has
  no third colon-delimited segment, and for the id \<^verbatim>\<open>700000:1:0\<close>, whose third
  colon-delimited segment is \<^verbatim>\<open>0\<close>, the code raises \<^verbatim>\<open>IndexError\<close>.
\<close>

theorem colon_delimited_counterexample:
  "funding_output_str
     \<lparr>short_channel_id = ''700000x1x0'', funding_txid = ''abcd'', funding_output = None\<rparr>
     = Inr ''0'' \<and>
   subscript (split_on CHR '':'' ''700000x1x0'') 2 = Inl IndexError \<and>
   funding_output_str
     \<lparr>short_channel_id = ''700000:1:0'', funding_txid = ''abcd'', funding_output = None\<rparr>
     = Inl IndexError \<and>
   subscript (split_on CHR '':'' ''700000:1:0'') 2 = Inr ''0''"
  by (simp add: funding_output_str_def subscript_def)

text \<open>
  C8, amended: for a channel without \<^verbatim>\<open>funding_output\<close> whose short channel id is
  \<open>a\<close>, the letter x, \<open>b\<close>, the letter x, \<open>c\<close>, where \<open>a\<close>, \<open>b\<close> and \<open>c\<close> contain no x,
  followed by nothing or by a further x and more, the output index is \<open>c\<close>, the third
  x-delimited segment, and the \<^verbatim>\<open>chan_point\<close> of every record built for the channel ends
  with it.
\<close>

theorem output_index_third_x_segment:
  assumes "funding_output ch = None"
    and "short_channel_id ch = a @ ''x'' @ b @ ''x'' @ c @ rest"
    and "CHR ''x'' \<notin> set a \<union> set b \<union> set c"
    and "rest = [] \<or> hd rest = CHR ''x''"
  shows "funding_output_str ch = Inr c \<and>
         (\<forall>d r. fee_record ch d = Inr r \<longrightarrow> chan_point r = funding_txid ch @ '':'' @ c)"
proof -
  obtain others where "split_on CHR ''x'' (a @ CHR ''x'' # b @ CHR ''x'' # c @ rest) = a # b # c # others"
    using split_on_three [of "CHR ''x''" a b c rest] assms(3,4) by auto
  then have fo: "funding_output_str ch = Inr c"
    by (simp add: funding_output_str_def assms(1,2) subscript_def)
  have "chan_point r = funding_txid ch @ '':'' @ c" if "fee_record ch d = Inr r" for d r
    using that fo by (auto elim!: fee_record_InrD)
  then show ?thesis using fo by blast
qed

theorem output_index_third_x_segment_witness:
  "funding_output_str example_channel = Inr ''0'' \<and>
   chan_point \<lparr>chan_point = ''abcd:0'', base_fee_msat = ''1000'', fee_per_mil = ''100'',
                fee_rate = ''0.00010000''\<rparr> = funding_txid example_channel @ '':'' @ ''0''"
proof -
  have 1: "funding_output example_channel = None"
    and 2: "short_channel_id example_channel = ''700000'' @ ''x'' @ ''1'' @ ''x'' @ ''0'' @ []"
    and 3: "CHR ''x'' \<notin> set ''700000'' \<union> set ''1'' \<union> set ''0''"
    and 4: "[] = [] \<or> hd [] = CHR ''x''"
    by (simp_all add: example_channel_def)
  from output_index_third_x_segment [OF 1 2 3 4] fee_record_example [of "''02aa''"]
  show ?thesis by blast
qed

lemma round_double_large_rate:
  "round_double (16777216000001 / 250000) = 1125899906842691 / 16777216"
proof -
  have "round_double (16777216000001 / 250000) =
      of_int (round_half_even ((16777216000001 / 250000) / power_int 2 (- 26))) * power_int 2 (- 26)"
    by (rule round_double_eval) simp_all
  also have "(16777216000001 / 250000) / power_int 2 (- 26) = (70368744177668194304 :: rat) / 15625"
    by simp
  also have "round_half_even (70368744177668194304 / 15625) = 4503599627370764"
    using rhe_frac [of 15625 70368744177668194304] by simp
  finally show ?thesis by simp
qed

lemma format_large_rate: "format_8f (1125899906842691 / 16777216) = ''67108864.00000399''"
proof -
  have k: "round_half_even (\<bar>1125899906842691 / 16777216\<bar> * 100000000) = 6710886400000399"
    using rhe_frac [of 65536 439804651110426171875] by simp
  have "format_8f (1125899906842691 / 16777216) =
      (if (1125899906842691 / 16777216 :: rat) < 0 then ''-'' else '''')
        @ str_nat (nat 6710886400000399 div 100000000) @ ''.''
        @ digits_fixed 8 (nat 6710886400000399 mod 100000000)"
    by (rule format_8f_digits [OF _ k]) simp
  also have "\<dots> = str_nat 67108864 @ ''.'' @ digits_fixed 8 399"
    by simp
  also have "\<dots> = ''67108864.00000399''"
    by (simp add: str_nat.simps digits_fixed_8 digit_char_def)
  finally show ?thesis .
qed

lemma fee_record_large_rate:
  "fee_record example_channel (policy_of ''02aa'' 1000 67108864000004) =
     Inr \<lparr>chan_point = ''abcd:0'', base_fee_msat = ''1000'', fee_per_mil = ''67108864000004'',
          fee_rate = ''67108864.00000399''\<rparr>"
proof -
  have t: "true_div 67108864000004 1000000 = Inr (1125899906842691 / 16777216)"
    by (simp add: true_div_def round_double_large_rate)
  have s: "str_int 67108864000004 = ''67108864000004''"
    by (simp add: str_int_def str_nat.simps digit_char_def)
  show ?thesis
    by (simp add: fee_record_def funding_output_str_example example_fields t s
        str_int_examples format_large_rate)
qed

section \<open>The claim about the fee rate\<close>

text \<open>
  C4 as stated fails: for a policy entry with \<^verbatim>\<open>fee_per_millionth\<close> 67108864000004 the
  report is returned with the fee rate \<^verbatim>\<open>67108864.00000399\<close>, which has 8 digits after
  the point but is not 67108864000004 / 1000000 = 67108864.000004: the quotient is a float,
  whose nearest value is printed.
\<close>

theorem fee_rate_counterexample:
  "feereport (rpc_of [example_channel] (constant_listing [policy_of ''02aa'' 1000 67108864000004]) [])
     ''02aa'' (utc_clock 1600000000000000)
   = Inr \<lparr>channel_fees = [\<lparr>chan_point = ''abcd:0'', base_fee_msat = ''1000'',
                              fee_per_mil = ''67108864000004'', fee_rate = ''67108864.00000399''\<rparr>],
          day_fee_sum = ''0'', week_fee_sum = ''0'', month_fee_sum = ''0''\<rparr> \<and>
   decimal_value ''67108864.00000399'' = Some (6710886400000399 / 100000000) \<and>
   (6710886400000399 / 100000000 :: rat) \<noteq> 67108864000004 / 1000000"
proof -
  have z: "sat_str 0 = Inr ''0''"
    using sat_str_exact [of 0] by (simp add: sdiv_1000 str_int_def str_int_examples)
  have run: "feereport (rpc_of [example_channel] (constant_listing [policy_of ''02aa'' 1000 67108864000004]) [])
     ''02aa'' (utc_clock 1600000000000000)
   = Inr \<lparr>channel_fees = [\<lparr>chan_point = ''abcd:0'', base_fee_msat = ''1000'',
                              fee_per_mil = ''67108864000004'', fee_rate = ''67108864.00000399''\<rparr>],
          day_fee_sum = ''0'', week_fee_sum = ''0'', month_fee_sum = ''0''\<rparr>"
    by (rule feereport_Inr [where chs = "[example_channel]" and fwds = "[]"
          and d = 0 and w = 0 and m = 0])
       (simp_all add: rpc_of_simps fee_sums_def z constant_listing_def example_fields
          fee_record_large_rate)
  have "decimal_value (format_8f (1125899906842691 / 16777216)) = Some (6710886400000399 / 100000000)"
    using rhe_frac [of 65536 439804651110426171875]
    by (simp add: decimal_value_format_8f)
  then have dv: "decimal_value ''67108864.00000399'' = Some (6710886400000399 / 100000000)"
    by (simp only: format_large_rate)
  show ?thesis
    by (intro conjI) (rule run, rule dv, simp)
qed

lemma fee_rate_of_record:
  assumes "fee_record ch d = Inr r"
  shows "decimals (fee_rate r) = Some 8"
    and "\<bar>fee_per_millionth d\<bar> < 67108864000000 \<Longrightarrow>
           decimal_value (fee_rate r) = Some (of_int (fee_per_millionth d) / 1000000)"
proof -
  define n where "n = fee_per_millionth d"
  from assms have fr: "fee_rate r = format_8f (round_double (of_int n / 1000000))"
    unfolding n_def by (auto elim!: fee_record_InrD)
  show "decimals (fee_rate r) = Some 8" by (simp only: fr decimals_format_8f)
  have "decimal_value (fee_rate r) = Some (of_int n / 1000000)" if b: "\<bar>n\<bar> < 67108864000000"
  proof -
    have "decimal_value (fee_rate r) =
        Some ((if n < 0 then - 1 else 1) * of_int (100 * \<bar>n\<bar>) / 100000000)"
      by (simp only: fr decimal_value_format_8f true_div_million(2,3) [OF b])
    also have "(if n < 0 then - 1 else 1) * (of_int (100 * \<bar>n\<bar>) :: rat) / 100000000 = of_int n / 1000000"
      by simp
    finally show ?thesis .
  qed
  then show "\<bar>fee_per_millionth d\<bar> < 67108864000000 \<Longrightarrow>
           decimal_value (fee_rate r) = Some (of_int (fee_per_millionth d) / 1000000)"
    by (simp add: n_def)
qed

text \<open>
  C4, amended: the fee rate of every record of a returned report has exactly 8 digits after
  the decimal point, and its value is the \<^verbatim>\<open>fee_per_millionth\<close> of the policy entry it was
  built from divided by 1000000 whenever that entry's \<^verbatim>\<open>fee_per_millionth\<close> is below
  \<open>2 ^ 26 * 1000000 = 67108864000000\<close> in absolute value, which every 32-bit value is.
  Such a record is indeed built: for a channel whose output index is found and a policy
  entry within that bound, the record exists and its fee rate has 8 decimals and that value.
\<close>

theorem fee_rate_eight_decimals:
  "(feereport rpc our_nodeid clk = Inr rep \<and> r \<in> set (channel_fees rep) \<longrightarrow>
      decimals (fee_rate r) = Some 8 \<and>
      (\<exists>chs ch d. listfunds rpc = Inr chs \<and> ch \<in> set chs \<and>
         own_policy rpc our_nodeid ch = Some d \<and> fee_record ch d = Inr r \<and>
         (\<bar>fee_per_millionth d\<bar> < 67108864000000 \<longrightarrow>
            decimal_value (fee_rate r) = Some (of_int (fee_per_millionth d) / 1000000)))) \<and>
   (funding_output_str channel = Inr fo \<and> \<bar>fee_per_millionth detail\<bar> < 67108864000000 \<longrightarrow>
      (\<exists>built. fee_record channel detail = Inr built \<and>
         decimals (fee_rate built) = Some 8 \<and>
         decimal_value (fee_rate built) = Some (of_int (fee_per_millionth detail) / 1000000)))"
proof (intro conjI impI)
  assume a: "feereport rpc our_nodeid clk = Inr rep \<and> r \<in> set (channel_fees rep)"
  then obtain chs ch d where 1: "listfunds rpc = Inr chs" "ch \<in> set chs"
    "own_policy rpc our_nodeid ch = Some d" "fee_record ch d = Inr r"
    by (auto elim: feereport_records)
  show "decimals (fee_rate r) = Some 8" using 1(4) by (rule fee_rate_of_record(1))
  have v: "\<bar>fee_per_millionth d\<bar> < 67108864000000 \<longrightarrow>
      decimal_value (fee_rate r) = Some (of_int (fee_per_millionth d) / 1000000)"
    using fee_rate_of_record(2) [OF 1(4)] by blast
  show "\<exists>chs ch d. listfunds rpc = Inr chs \<and> ch \<in> set chs \<and>
            own_policy rpc our_nodeid ch = Some d \<and> fee_record ch d = Inr r \<and>
            (\<bar>fee_per_millionth d\<bar> < 67108864000000 \<longrightarrow>
               decimal_value (fee_rate r) = Some (of_int (fee_per_millionth d) / 1000000))"
    by (intro exI [of _ chs] exI [of _ ch] exI [of _ d] conjI)
       (fact 1(1), fact 1(2), fact 1(3), fact 1(4), fact v)
next
  assume b: "funding_output_str channel = Inr fo \<and> \<bar>fee_per_millionth detail\<bar> < 67108864000000"
  then have fo: "funding_output_str channel = Inr fo"
    and bd: "\<bar>fee_per_millionth detail\<bar> < 67108864000000" by simp_all
  from fee_record_small [OF fo bd] obtain built where r: "fee_record channel detail = Inr built"
    by blast
  show "\<exists>built. fee_record channel detail = Inr built \<and>
         decimals (fee_rate built) = Some 8 \<and>
         decimal_value (fee_rate built) = Some (of_int (fee_per_millionth detail) / 1000000)"
    by (intro exI [of _ built] conjI)
       (rule r, rule fee_rate_of_record(1) [OF r], rule fee_rate_of_record(2) [OF r bd])
qed

theorem fee_rate_eight_decimals_witness:
  "decimals ''0.00010000'' = Some 8 \<and> decimal_value ''0.00010000'' = Some (100 / 1000000)"
proof -
  have fo: "funding_output_str example_channel = Inr ''0''" by (rule funding_output_str_example)
  have bd: "\<bar>fee_per_millionth (policy_of ''02aa'' 1000 100)\<bar> < 67108864000000"
    by (simp add: example_fields)
  from fee_rate_eight_decimals [THEN conjunct2, rule_format, OF conjI, OF fo bd]
  obtain built where "fee_record example_channel (policy_of ''02aa'' 1000 100) = Inr built"
    and "decimals (fee_rate built) = Some 8"
    and "decimal_value (fee_rate built) =
           Some (of_int (fee_per_millionth (policy_of ''02aa'' 1000 100)) / 1000000)"
    by blast
  then show ?thesis by (auto simp: fee_record_example example_fields)
qed

lemma fee_data_nonneg:
  "\<forall>f\<in>set fwds. 0 \<le> fee f \<Longrightarrow> \<forall>p\<in>set (fee_data fwds). 0 \<le> fst p"
  by (induction fwds) (auto split: option.splits)

lemma fee_loop_ordered:
  assumes "\<forall>p\<in>set xs. 0 \<le> fst p" and "0 \<le> a" and "a \<le> b" and "b \<le> c"
  shows "case fee_loop D W M xs (a, b, c) of (d, w, m) \<Rightarrow> 0 \<le> d \<and> d \<le> w \<and> w \<le> m"
  using assms
proof (induction xs arbitrary: a b c)
  case Nil
  then show ?case by simp
next
  case (Cons p xs)
  obtain f t where p: "p = (f, t)" by (cases p)
  have f: "0 \<le> f" using Cons.prems(1) by (simp add: p)
  have rest: "\<forall>p\<in>set xs. 0 \<le> fst p" using Cons.prems(1) by simp
  have 1: "case fee_loop D W M xs (a + f, b + f, c + f) of (d, w, m) \<Rightarrow> 0 \<le> d \<and> d \<le> w \<and> w \<le> m"
    using rest Cons.prems(2-4) f by (intro Cons.IH) simp_all
  have 2: "case fee_loop D W M xs (a, b + f, c + f) of (d, w, m) \<Rightarrow> 0 \<le> d \<and> d \<le> w \<and> w \<le> m"
    using rest Cons.prems(2-4) f by (intro Cons.IH) simp_all
  have 3: "case fee_loop D W M xs (a, b, c + f) of (d, w, m) \<Rightarrow> 0 \<le> d \<and> d \<le> w \<and> w \<le> m"
    using rest Cons.prems(2-4) f by (intro Cons.IH) simp_all
  have 4: "case fee_loop D W M xs (a, b, c) of (d, w, m) \<Rightarrow> 0 \<le> d \<and> d \<le> w \<and> w \<le> m"
    using rest Cons.prems(2-4) by (intro Cons.IH) simp_all
  show ?case using 1 2 3 4 by (simp add: p)
qed

lemma fee_sums_ordered:
  assumes "\<forall>f\<in>set fwds. 0 \<le> fee f" and "fee_sums clk fwds = (d, w, m)"
  shows "0 \<le> d" and "d \<le> w" and "w \<le> m"
  using fee_loop_ordered [OF fee_data_nonneg [OF assms(1)], of 0 0 0
      "day_ago clk" "week_ago clk" "month_ago clk"] assms(2)
  by (simp_all add: fee_sums_def)

section \<open>The claim about the order of the three sums\<close>

text \<open>
  C9: when every forward of the history has a non-negative fee, the three millisatoshi totals
  satisfy 0 \<open>\<le>\<close> day \<open>\<le>\<close> week \<open>\<le>\<close> month, and in every report that is returned the three
  sum strings read as integers \<open>d\<close>, \<open>w\<close> and \<open>m\<close> with \<open>d \<le> w \<le> m\<close>. The report is
  indeed returned when the two other calls and the loop over the channels succeed and the
  month total is below \<open>2 ^ 44 * 1000\<close>.
\<close>

theorem fee_sum_strings_ordered:
  assumes "\<forall>f\<in>set fwds. 0 \<le> fee f"
  shows "(case fee_sums clk fwds of (d, w, m) \<Rightarrow> 0 \<le> d \<and> d \<le> w \<and> w \<le> m) \<and>
         (feereport rpc our_nodeid clk = Inr rep \<and> listforwards rpc = Inr fwds \<longrightarrow>
            (\<exists>d w m. int_value (day_fee_sum rep) = Some d \<and>
               int_value (week_fee_sum rep) = Some w \<and>
               int_value (month_fee_sum rep) = Some m \<and> d \<le> w \<and> w \<le> m)) \<and>
         (listfunds rpc = Inr chs \<and> channel_loop rpc our_nodeid chs [] = Inr fees \<and>
          listforwards rpc = Inr fwds \<and> snd (snd (fee_sums clk fwds)) < 17592186044416000 \<longrightarrow>
            (\<exists>returned. feereport rpc our_nodeid clk = Inr returned))"
proof (intro conjI impI)
  obtain d w m where s: "fee_sums clk fwds = (d, w, m)" by (cases "fee_sums clk fwds")
  note o = fee_sums_ordered [OF assms s]
  show "case fee_sums clk fwds of (d, w, m) \<Rightarrow> 0 \<le> d \<and> d \<le> w \<and> w \<le> m"
    using o by (simp add: s)
  {
    assume "feereport rpc our_nodeid clk = Inr rep \<and> listforwards rpc = Inr fwds"
    then have run: "feereport rpc our_nodeid clk = Inr rep" and lf: "listforwards rpc = Inr fwds"
      by simp_all
    from run obtain fwds' d' w' m' where r: "listforwards rpc = Inr fwds'"
      "fee_sums clk fwds' = (d', w', m')" "sat_str d' = Inr (day_fee_sum rep)"
      "sat_str w' = Inr (week_fee_sum rep)" "sat_str m' = Inr (month_fee_sum rep)"
      by (rule feereport_InrD)
    have "fwds' = fwds" using r(1) lf by simp
    then have e: "d' = d" "w' = w" "m' = m" using r(2) s by simp_all
    define sat where "sat = (\<lambda>t::int. int_of_float (round_double (of_int t / 1000)))"
    have ds: "day_fee_sum rep = str_int (sat d)"
      and ws: "week_fee_sum rep = str_int (sat w)"
      and ms: "month_fee_sum rep = str_int (sat m)"
      using r(3-5) sat_str_value unfolding e sat_def by blast+
    have w0: "0 \<le> w" using o by linarith
    have le: "sat d \<le> sat w" "sat w \<le> sat m"
      unfolding sat_def using sat_value_mono(2) [OF o(1,2)] sat_value_mono(2) [OF w0 o(3)]
      by simp_all
    show "\<exists>d w m. int_value (day_fee_sum rep) = Some d \<and>
               int_value (week_fee_sum rep) = Some w \<and>
               int_value (month_fee_sum rep) = Some m \<and> d \<le> w \<and> w \<le> m"
      by (intro exI [of _ "sat d"] exI [of _ "sat w"] exI [of _ "sat m"] conjI)
         (simp_all only: ds ws ms int_value_str_int le)
  }
  {
    assume a: "listfunds rpc = Inr chs \<and> channel_loop rpc our_nodeid chs [] = Inr fees \<and>
          listforwards rpc = Inr fwds \<and> snd (snd (fee_sums clk fwds)) < 17592186044416000"
    then have mb: "m < 17592186044416000" by (simp add: s)
    have b: "\<bar>d\<bar> < 17592186044416000" "\<bar>w\<bar> < 17592186044416000" "\<bar>m\<bar> < 17592186044416000"
      using o mb by simp_all
    have "feereport rpc our_nodeid clk =
        Inr \<lparr>channel_fees = fees, day_fee_sum = str_int (d sdiv 1000),
             week_fee_sum = str_int (w sdiv 1000), month_fee_sum = str_int (m sdiv 1000)\<rparr>"
      using a by (intro feereport_Inr [where chs = chs and fwds = fwds and d = d and w = w and m = m]
          s sat_str_exact b) simp_all
    then show "\<exists>returned. feereport rpc our_nodeid clk = Inr returned" ..
  }
qed

lemma fee_sums_three_ages:
  "fee_sums (utc_clock 1600000000000000)
     [settled_at 1999 1599992800, settled_at 4000 1599568000, settled_at 7000 1598272000]
   = (1999, 5999, 12999)"
  by (simp add: fee_sums_def cutoffs_utc settled_at_def)

theorem fee_sum_strings_ordered_witness:
  "feereport (rpc_of [] (constant_listing [])
       [settled_at 1999 1599992800, settled_at 4000 1599568000, settled_at 7000 1598272000])
     ''02aa'' (utc_clock 1600000000000000)
   = Inr \<lparr>channel_fees = [], day_fee_sum = ''1'', week_fee_sum = ''5'', month_fee_sum = ''12''\<rparr> \<and>
   (\<exists>d w m. int_value ''1'' = Some d \<and> int_value ''5'' = Some w \<and> int_value ''12'' = Some m \<and>
      d \<le> w \<and> w \<le> m)"
proof -
  let ?fwds = "[settled_at 1999 1599992800, settled_at 4000 1599568000, settled_at 7000 1598272000]"
  let ?rpc = "rpc_of [] (constant_listing []) ?fwds"
  let ?rep = "\<lparr>channel_fees = [], day_fee_sum = ''1'', week_fee_sum = ''5'', month_fee_sum = ''12''\<rparr>"
  have fees: "\<forall>f\<in>set ?fwds. 0 \<le> fee f" by (simp add: settled_at_def)
  have s1: "sat_str 1999 = Inr ''1''" and s5: "sat_str 5999 = Inr ''5''"
    and s12: "sat_str 12999 = Inr ''12''"
    using sat_str_exact [of 1999] sat_str_exact [of 5999] sat_str_exact [of 12999]
    by (simp_all add: sdiv_1000 str_int_def str_nat.simps digit_char_def)
  have run: "feereport ?rpc ''02aa'' (utc_clock 1600000000000000) = Inr ?rep"
    by (rule feereport_Inr [where chs = "[]" and fwds = ?fwds and d = 1999 and w = 5999 and m = 12999])
       (simp_all only: rpc_of_simps fee_sums_three_ages s1 s5 s12 channel_loop.simps)
  have lf: "listforwards ?rpc = Inr ?fwds" by (simp add: rpc_of_simps)
  from fee_sum_strings_ordered [OF fees, THEN conjunct2, THEN conjunct1, rule_format, OF conjI,
      OF run lf]
  have "\<exists>d w m. int_value ''1'' = Some d \<and> int_value ''5'' = Some w \<and> int_value ''12'' = Some m \<and>
      d \<le> w \<and> w \<le> m"
    by simp
  with run show ?thesis by (rule conjI)
qed

end
